theory Spec2Isabelle
  imports Main "HOL-Library.Char_ord" "HOL-Library.List_Lexorder" "HOL-Library.Multiset"
begin

section \<open>JavaScript values, exceptions and string primitives\<close>

text \<open>
  The version classification core of vscode-versionlens (the unnamed source part holding
  \<^verbatim>\<open>buildTagsFromVersionMap\<close>, \<^verbatim>\<open>applyTagFilterRules\<close> and their helpers) is embedded
  function by function. A JavaScript exception is the left summand of a sum: every call
  that can throw returns \<open>error + 'a\<close>. The only exceptions these functions can meet are
  \<^verbatim>\<open>TypeError\<close>s: the ones the semver package throws for an invalid version or range, and
  the one a property read on \<^verbatim>\<open>undefined\<close> throws.
\<close>

datatype error = TypeError

text \<open>
  The values a flag of an output entry can hold. The source builds flags with \<^verbatim>\<open>&&\<close>,
  which returns its first falsy operand unchanged, so a flag is not always a boolean.
\<close>

datatype jsval = JUndefined | JNull | JBool bool | JStr string

text \<open>Truthiness of a value that is a string or \<^verbatim>\<open>null\<close>: \<^verbatim>\<open>null\<close> and \<^verbatim>\<open>""\<close> are falsy.\<close>

fun truthy :: "string option \<Rightarrow> bool" where
  "truthy None = False"
| "truthy (Some s) = (s \<noteq> [])"

text \<open>
  Strings are lists of 8-bit characters; the inputs of interest (version numbers, range
  operators, channel names) are ASCII, where JavaScript's UTF-16 code units and these
  characters coincide.
\<close>

text \<open>\<^verbatim>\<open>parts.join(sep)\<close>\<close>

fun join :: "string \<Rightarrow> string list \<Rightarrow> string" where
  "join sep [] = []"
| "join sep [x] = x"
| "join sep (x # y # ys) = x @ sep @ join sep (y # ys)"

fun startsWith :: "string \<Rightarrow> string \<Rightarrow> bool" where
  "startsWith s [] = True"
| "startsWith [] (p # ps) = False"
| "startsWith (c # cs) (p # ps) = (c = p \<and> startsWith cs ps)"

text \<open>\<^verbatim>\<open>s.includes(t)\<close>: \<open>t\<close> occurs in \<open>s\<close> as a contiguous substring.\<close>

fun str_includes :: "string \<Rightarrow> string \<Rightarrow> bool" where
  "str_includes [] t = (t = [])"
| "str_includes (c # cs) t = (startsWith (c # cs) t \<or> str_includes cs t)"

text \<open>
  \<^verbatim>\<open>s.replace(pat, rep)\<close> with a string pattern: the first occurrence of \<open>pat\<close> is
  replaced, and \<open>s\<close> is returned unchanged when there is none.
\<close>

fun str_replace :: "string \<Rightarrow> string \<Rightarrow> string \<Rightarrow> string" where
  "str_replace [] pat rep = (if pat = [] then rep else [])"
| "str_replace (c # cs) pat rep =
     (if startsWith (c # cs) pat then rep @ drop (length pat) (c # cs)
      else c # str_replace cs pat rep)"

text \<open>
  \<^verbatim>\<open>s.replace(/[\^~]/, '')\<close>: the regular expression has no \<^verbatim>\<open>g\<close> flag and no anchor, so
  the first caret or tilde of the string is removed, wherever it stands.
\<close>

fun replace_caret_tilde :: "string \<Rightarrow> string" where
  "replace_caret_tilde [] = []"
| "replace_caret_tilde (c # cs) =
     (if c = CHR ''^'' \<or> c = CHR ''~'' then cs else c # replace_caret_tilde cs)"

text \<open>\<^verbatim>\<open>s.toLowerCase()\<close> on ASCII.\<close>

definition lower_char :: "char \<Rightarrow> char" where
  "lower_char c =
     (case map_of (zip ''ABCDEFGHIJKLMNOPQRSTUVWXYZ'' ''abcdefghijklmnopqrstuvwxyz'') c of
        None \<Rightarrow> c
      | Some d \<Rightarrow> d)"

definition toLowerCase :: "string \<Rightarrow> string" where
  "toLowerCase s = map lower_char s"

text \<open>
  \<^verbatim>\<open>xs.filter(p)\<close> for a predicate that may throw: the elements are visited in order and
  the first exception ends the call.
\<close>

fun filterE :: "('a \<Rightarrow> error + bool) \<Rightarrow> 'a list \<Rightarrow> error + 'a list" where
  "filterE p [] = Inr []"
| "filterE p (x # xs) =
     (case p x of
        Inl e \<Rightarrow> Inl e
      | Inr b \<Rightarrow>
          (case filterE p xs of
             Inl e \<Rightarrow> Inl e
           | Inr ys \<Rightarrow> Inr (if b then x # ys else ys)))"

text \<open>
  \<^verbatim>\<open>xs.sort(cmp)\<close>. ECMAScript leaves the algorithm open; the model is an insertion
  sort, which calls the comparator on pairs of elements and places \<open>x\<close> before the first
  \<open>y\<close> with \<open>cmp x y \<le> 0\<close>. An exception of the comparator ends the sort.
\<close>

fun insertE :: "('a \<Rightarrow> 'a \<Rightarrow> error + int) \<Rightarrow> 'a \<Rightarrow> 'a list \<Rightarrow> error + 'a list" where
  "insertE cmp x [] = Inr [x]"
| "insertE cmp x (y # ys) =
     (case cmp x y of
        Inl e \<Rightarrow> Inl e
      | Inr c \<Rightarrow>
          if c \<le> 0 then Inr (x # y # ys)
          else (case insertE cmp x ys of
                  Inl e \<Rightarrow> Inl e
                | Inr zs \<Rightarrow> Inr (y # zs)))"

fun array_sort :: "('a \<Rightarrow> 'a \<Rightarrow> error + int) \<Rightarrow> 'a list \<Rightarrow> error + 'a list" where
  "array_sort cmp [] = Inr []"
| "array_sort cmp (x # xs) =
     (case array_sort cmp xs of
        Inl e \<Rightarrow> Inl e
      | Inr ys \<Rightarrow> insertE cmp x ys)"

section \<open>The imported names\<close>

text \<open>
  The semver package is not part of the repository. The calls the source makes are the
  fields of a record, and every function of the source takes the record as a parameter,
  so the general theorems hold for every behaviour of the package.
  \<^item> \<open>validRange sv r\<close>: \<^verbatim>\<open>semver.validRange(r)\<close> is not \<^verbatim>\<open>null\<close>. The source only tests
    the result for truthiness, and a non-null result is a non-empty string.
  \<^item> \<open>prerelease sv v\<close>: \<^verbatim>\<open>semver.prerelease(v)\<close>, \<open>None\<close> for \<^verbatim>\<open>null\<close>; the components
    are given as \<^verbatim>\<open>join\<close> renders them.
  \<^item> \<open>ltr\<close>, \<open>lt\<close>, \<open>gt\<close>, \<open>satisfies\<close>, \<open>maxSatisfying\<close>: the calls of these names, which
    may throw.
  \<^item> \<open>Range_operator sv r\<close>: \<^verbatim>\<open>new semver.Range(r).set[0][0].operator\<close>.
\<close>

record semver =
  validRange :: "string \<Rightarrow> bool"
  prerelease :: "string \<Rightarrow> string list option"
  ltr :: "string \<Rightarrow> string \<Rightarrow> error + bool"
  lt :: "string \<Rightarrow> string \<Rightarrow> error + bool"
  gt :: "string \<Rightarrow> string \<Rightarrow> error + bool"
  satisfies :: "string option \<Rightarrow> string \<Rightarrow> error + bool"
  maxSatisfying :: "string list \<Rightarrow> string \<Rightarrow> error + string option"
  Range_operator :: "string \<Rightarrow> error + jsval"

text \<open>
  \<^verbatim>\<open>formatTagNameRegex\<close> is imported from \<^verbatim>\<open>utils.js\<close>, which is not among the sources.
  Its \<^verbatim>\<open>exec\<close> is a parameter \<open>rx\<close> of the functions that use it: \<open>rx s\<close> is \<open>None\<close> when
  the expression does not match \<open>s\<close> and \<open>Some m\<close> when it does, \<open>m\<close> being the matched
  text (element 0 of the result).
\<close>

type_synonym regex = "string \<Rightarrow> string option"

text \<open>
  Modelled from the spec: \<^verbatim>\<open>sortDescending\<close> of \<^verbatim>\<open>utils.js\<close> is missing from the sources.
  The spec calls it "a descending lexical comparison" of two names: negative when the
  first name is the greater, so that it sorts first.
\<close>

definition sortDescending :: "string \<Rightarrow> string \<Rightarrow> int" where
  "sortDescending a b = (if a > b then - 1 else if a < b then 1 else 0)"

section \<open>The data model\<close>

text \<open>
  \<^verbatim>\<open>TaggedVersion\<close> is \<open>string tag\<close>. The two leading entries of the output are the same
  object shape with more properties: the version of the satisfies entry may be
  \<^verbatim>\<open>null\<close>. The property \<^verbatim>\<open>isFixedVersion\<close> of the satisfies entry is the field
  \<open>isFixedVersion_flag\<close>, the plain name being the function's.
\<close>

record 'v tag =
  name :: string
  version :: 'v

type_synonym TaggedVersion = "string tag"

record VersionMap =
  releases :: "string list"
  taggedVersions :: "TaggedVersion list"

record VersionMapMax = VersionMap +
  maxSatisfyingVersion :: "string option"

record VersionInfo =
  vi_version :: string
  isPrerelease :: bool
  prereleaseGroup :: string

record satisfiesEntry = "string option tag" +
  isNewerThanLatest :: jsval
  isLatestVersion :: bool
  satisfiesLatest :: bool
  isInvalid :: bool
  versionMatchNotFound :: bool
  isFixedVersion_flag :: jsval
  isPrimaryTag :: bool

record latestEntry = "string tag" +
  isOlderThanRequested :: jsval

datatype entry =
  SatisfiesEntry satisfiesEntry
| LatestEntry latestEntry
| TagEntry TaggedVersion

fun entry_name :: "entry \<Rightarrow> string" where
  "entry_name (SatisfiesEntry s) = name s"
| "entry_name (LatestEntry l) = name l"
| "entry_name (TagEntry t) = name t"

fun entry_version :: "entry \<Rightarrow> string option" where
  "entry_version (SatisfiesEntry s) = version s"
| "entry_version (LatestEntry l) = Some (version l)"
| "entry_version (TagEntry t) = Some (version t)"

section \<open>The functions of the source\<close>

text \<open>
  \<^verbatim>\<open>removeExactVersions\<close> compares with \<^verbatim>\<open>!==\<close>; its argument is a string or \<^verbatim>\<open>null\<close>
  (the satisfying version), and \<^verbatim>\<open>null\<close> equals no tag's version.
\<close>

definition removeExactVersions :: "TaggedVersion list \<Rightarrow> string option \<Rightarrow> TaggedVersion list" where
  "removeExactVersions this v = filter (\<lambda>t. Some (version t) \<noteq> v) this"

definition removeTagsWithName :: "TaggedVersion list \<Rightarrow> string \<Rightarrow> TaggedVersion list" where
  "removeTagsWithName this n = filter (\<lambda>t. name t \<noteq> n) this"

definition pluckSemverVersions :: "semver \<Rightarrow> string list \<Rightarrow> string list" where
  "pluckSemverVersions sv versions =
     fold (\<lambda>v semverVersions. if validRange sv v then semverVersions @ [v] else semverVersions)
       versions []"

definition parseVersion :: "semver \<Rightarrow> regex \<Rightarrow> string \<Rightarrow> VersionInfo" where
  "parseVersion sv rx v =
     (case prerelease sv v of
        None \<Rightarrow> \<lparr>vi_version = v, isPrerelease = False, prereleaseGroup = []\<rparr>
      | Some [] \<Rightarrow> \<lparr>vi_version = v, isPrerelease = False, prereleaseGroup = []\<rparr>
      | Some (c # cs) \<Rightarrow>
          \<lparr>vi_version = v, isPrerelease = True,
           prereleaseGroup = (case rx c of None \<Rightarrow> [] | Some m \<Rightarrow> toLowerCase m)\<rparr>)"

definition isFixedVersion :: "semver \<Rightarrow> string \<Rightarrow> error + bool" where
  "isFixedVersion sv versionToCheck =
     (case Range_operator sv versionToCheck of
        Inl e \<Rightarrow> Inl e
      | Inr opr \<Rightarrow> Inr (opr = JStr []))"

definition isOlderVersion :: "semver \<Rightarrow> string \<Rightarrow> string \<Rightarrow> error + bool" where
  "isOlderVersion sv v requestedVersion =
     (case prerelease sv requestedVersion of
        Some requestedVersionComponents \<Rightarrow> ltr sv v requestedVersion
      | None \<Rightarrow>
          (case prerelease sv v of
             None \<Rightarrow> ltr sv v requestedVersion
           | Some testVersionComponents \<Rightarrow>
               (let testVersion = str_replace v (''-'' @ join ''.'' testVersionComponents) []
                in case ltr sv testVersion requestedVersion of
                     Inl e \<Rightarrow> Inl e
                   | Inr b \<Rightarrow> Inr (b \<or> str_includes requestedVersion testVersion))))"

definition removeOlderVersions ::
    "semver \<Rightarrow> TaggedVersion list \<Rightarrow> string \<Rightarrow> error + TaggedVersion list" where
  "removeOlderVersions sv this versionRange =
     filterE (\<lambda>t. case isOlderVersion sv (version t) versionRange of
                    Inl e \<Rightarrow> Inl e
                  | Inr b \<Rightarrow> Inr (\<not> b)) this"

definition sortTagsByRecentVersion ::
    "semver \<Rightarrow> TaggedVersion \<Rightarrow> TaggedVersion \<Rightarrow> error + int" where
  "sortTagsByRecentVersion sv tagA tagB =
     (let a = version tagA; b = version tagB
      in case lt sv a b of
           Inl e \<Rightarrow> Inl e
         | Inr True \<Rightarrow> Inr 1
         | Inr False \<Rightarrow>
             (case gt sv a b of
                Inl e \<Rightarrow> Inl e
              | Inr True \<Rightarrow> Inr (- 1)
              | Inr False \<Rightarrow> Inr (sortDescending (name tagA) (name tagB))))"

definition pluckTagsAndReleases :: "semver \<Rightarrow> regex \<Rightarrow> string list \<Rightarrow> VersionMap" where
  "pluckTagsAndReleases sv rx versions =
     fold (\<lambda>versionInfo m.
             if \<not> isPrerelease versionInfo
             then m\<lparr>releases := releases m @ [vi_version versionInfo]\<rparr>
             else m\<lparr>taggedVersions := taggedVersions m @
                      [\<lparr>name = prereleaseGroup versionInfo,
                        version = vi_version versionInfo\<rparr>]\<rparr>)
       (map (parseVersion sv rx) versions)
       \<lparr>releases = [], taggedVersions = []\<rparr>"

definition reduceTagsByUniqueNames :: "TaggedVersion list \<Rightarrow> TaggedVersion list" where
  "reduceTagsByUniqueNames this =
     fold (\<lambda>current unique.
             if find (\<lambda>x. name x = name current) unique = None
             then unique @ [current] else unique)
       this []"

definition removeAmbiguousTagNames :: "regex \<Rightarrow> TaggedVersion list \<Rightarrow> TaggedVersion list" where
  "removeAmbiguousTagNames rx this =
     fold (\<lambda>current results.
             case rx (name current) of
               None \<Rightarrow> results @ [\<lparr>name = name current, version = version current\<rparr>]
             | Some m \<Rightarrow>
                 if length m > 1
                 then results @ [\<lparr>name = toLowerCase m, version = version current\<rparr>]
                 else results)
       this []"

text \<open>
  \<^verbatim>\<open>try { maxSatisfyingVersion = semver.maxSatisfying(...) } catch (err) { }\<close>: the
  variable keeps its initial value, the requested version, when the call throws.
\<close>

definition deduceMaxSatisfyingFromSemverList ::
    "semver \<Rightarrow> string list \<Rightarrow> string \<Rightarrow> error + string option" where
  "deduceMaxSatisfyingFromSemverList sv semverList requestedVersion =
     (case maxSatisfying sv semverList requestedVersion of
        Inl err \<Rightarrow> Inr (Some requestedVersion)
      | Inr maxSatisfying_result \<Rightarrow> Inr maxSatisfying_result)"

definition buildMapFromVersionList ::
    "semver \<Rightarrow> regex \<Rightarrow> string list \<Rightarrow> string \<Rightarrow> error + VersionMapMax" where
  "buildMapFromVersionList sv rx versions requestedVersion =
     (let semverList = pluckSemverVersions sv versions;
          versionMap = pluckTagsAndReleases sv rx semverList
      in case deduceMaxSatisfyingFromSemverList sv semverList requestedVersion of
           Inl e \<Rightarrow> Inl e
         | Inr m \<Rightarrow>
             Inr \<lparr>releases = releases versionMap,
                  taggedVersions = taggedVersions versionMap,
                  maxSatisfyingVersion = m\<rparr>)"

definition applyTagFilterRules ::
    "semver \<Rightarrow> regex \<Rightarrow> TaggedVersion list \<Rightarrow> string \<Rightarrow> string option \<Rightarrow> string \<Rightarrow> bool
      \<Rightarrow> error + TaggedVersion list" where
  "applyTagFilterRules sv rx tags requestedVersion satisifiesVersion latestVersion
       matchNotFound =
     (case (if validRange sv requestedVersion
            then removeOlderVersions sv tags requestedVersion
            else Inr tags) of
        Inl e \<Rightarrow> Inl e
      | Inr f1 \<Rightarrow>
          (let f2 = removeExactVersions f1 satisifiesVersion;
               f3 = removeExactVersions f2 (Some latestVersion)
           in case (if matchNotFound
                    then removeOlderVersions sv f3 latestVersion
                    else Inr f3) of
                Inl e \<Rightarrow> Inl e
              | Inr f4 \<Rightarrow>
                  (let f5 = removeAmbiguousTagNames rx f4;
                       f6 = reduceTagsByUniqueNames f5;
                       f7 = removeTagsWithName f6 ''latest''
                   in array_sort (sortTagsByRecentVersion sv) f7)))"

text \<open>
  \<^verbatim>\<open>versionMap.releases[0] || versionMap.taggedVersions[0].version\<close>: the first release
  when there is one and it is not the empty string, else the version of the first tagged
  version; reading \<^verbatim>\<open>version\<close> of \<^verbatim>\<open>undefined\<close> throws when there is no tagged version.
\<close>

definition latestVersionOf :: "'a VersionMap_scheme \<Rightarrow> error + string" where
  "latestVersionOf versionMap =
     (case releases versionMap of
        r # rs \<Rightarrow>
          if r \<noteq> [] then Inr r
          else (case taggedVersions versionMap of
                  [] \<Rightarrow> Inl TypeError
                | t # ts \<Rightarrow> Inr (version t))
      | [] \<Rightarrow>
          (case taggedVersions versionMap of
             [] \<Rightarrow> Inl TypeError
           | t # ts \<Rightarrow> Inr (version t)))"

text \<open>
  \<^verbatim>\<open>!versionMatchNotFound && isRequestedVersionValid && isOlderVersion(...)\<close>: \<^verbatim>\<open>false\<close>
  when no match was found, the \<^verbatim>\<open>null\<close> of \<^verbatim>\<open>validRange\<close> when the requested version is
  invalid, else the result of the call.
\<close>

definition olderThanRequested :: "semver \<Rightarrow> bool \<Rightarrow> bool \<Rightarrow> string \<Rightarrow> string \<Rightarrow> error + jsval" where
  "olderThanRequested sv notFound valid latest requestedVersion =
     (if notFound then Inr (JBool False)
      else if \<not> valid then Inr JNull
      else (case isOlderVersion sv latest requestedVersion of
              Inl e \<Rightarrow> Inl e
            | Inr b \<Rightarrow> Inr (JBool b)))"

text \<open>
  \<^verbatim>\<open>!satisfiesLatest && versionMap.maxSatisfyingVersion && semver.gt(...)\<close>: a falsy
  satisfying version (\<^verbatim>\<open>null\<close> or \<^verbatim>\<open>""\<close>) is the flag's value when it is reached.
\<close>

definition newerThanLatest :: "semver \<Rightarrow> bool \<Rightarrow> string option \<Rightarrow> string \<Rightarrow> error + jsval" where
  "newerThanLatest sv satLatest maxSat latest =
     (if satLatest then Inr (JBool False)
      else (case maxSat of
              None \<Rightarrow> Inr JNull
            | Some m \<Rightarrow>
                if m = [] then Inr (JStr [])
                else (case gt sv m latest of
                        Inl e \<Rightarrow> Inl e
                      | Inr b \<Rightarrow> Inr (JBool b))))"

definition buildTagsFromVersionMap ::
    "semver \<Rightarrow> regex \<Rightarrow> VersionMapMax \<Rightarrow> string \<Rightarrow> error + entry list" where
  "buildTagsFromVersionMap sv rx versionMap requestedVersion =
     (let isRequestedVersionValid = validRange sv requestedVersion;
          notFound = \<not> truthy (maxSatisfyingVersion versionMap)
      in case latestVersionOf versionMap of
           Inl e \<Rightarrow> Inl e
         | Inr latest \<Rightarrow>
       (case olderThanRequested sv notFound isRequestedVersionValid latest requestedVersion of
           Inl e \<Rightarrow> Inl e
         | Inr older \<Rightarrow>
       (case satisfies sv (maxSatisfyingVersion versionMap) latest of
           Inl e \<Rightarrow> Inl e
         | Inr satLatest \<Rightarrow>
       (case (if isRequestedVersionValid
              then (case isFixedVersion sv requestedVersion of
                      Inl e \<Rightarrow> Inl e
                    | Inr b \<Rightarrow> Inr (JBool b))
              else Inr JNull) of
           Inl e \<Rightarrow> Inl e
         | Inr isFixed \<Rightarrow>
       (let isLatest = (satLatest \<and> replace_caret_tilde requestedVersion = latest)
        in case newerThanLatest sv satLatest (maxSatisfyingVersion versionMap) latest of
           Inl e \<Rightarrow> Inl e
         | Inr newer \<Rightarrow>
       (case applyTagFilterRules sv rx (taggedVersions versionMap) requestedVersion
               (maxSatisfyingVersion versionMap) latest notFound of
           Inl e \<Rightarrow> Inl e
         | Inr others \<Rightarrow>
             Inr (SatisfiesEntry
                    \<lparr>name = ''satisfies'',
                     version = maxSatisfyingVersion versionMap,
                     isNewerThanLatest = newer,
                     isLatestVersion = isLatest,
                     satisfiesLatest = satLatest,
                     isInvalid = (\<not> isRequestedVersionValid),
                     versionMatchNotFound = notFound,
                     isFixedVersion_flag = isFixed,
                     isPrimaryTag = True\<rparr>
                  # (if isLatest then []
                     else [LatestEntry
                             \<lparr>name = ''latest'', version = latest,
                              isOlderThanRequested = older\<rparr>])
                  @ map TagEntry others)))))))"

section \<open>A model of the imported names on plain versions and simple ranges\<close>

text \<open>
  Modelled from the spec: \<^verbatim>\<open>formatTagNameRegex\<close> of \<^verbatim>\<open>utils.js\<close> is missing from the
  sources. The spec describes it as "a tag-name pattern capturing a leading run of
  alphabetic characters", which may fail to match ("if no alphabetic prefix is found").
\<close>

definition is_alpha :: "char \<Rightarrow> bool" where
  "is_alpha c = ((CHR ''a'' \<le> c \<and> c \<le> CHR ''z'') \<or> (CHR ''A'' \<le> c \<and> c \<le> CHR ''Z''))"

definition formatTagNameRegex_exec :: regex where
  "formatTagNameRegex_exec s =
     (let m = takeWhile is_alpha s in if m = [] then None else Some m)"

text \<open>
  The concrete scenarios need a semver package to run against. \<open>semver_model\<close> follows
  the code of semver 5.x (strict mode, the only mode the source uses) on
  \<^item> versions \<^verbatim>\<open>MAJOR.MINOR.PATCH\<close> and \<^verbatim>\<open>MAJOR.MINOR.PATCH-PRERELEASE\<close>, and
  \<^item> ranges made of one such version after at most one of the operators
    \<^verbatim>\<open>^ ~ >= <= > < =\<close>.
  Every other string is invalid in the model. The package accepts more (surrounding
  white space, a leading \<^verbatim>\<open>v\<close>, build metadata, partial versions and \<^verbatim>\<open>x\<close>-ranges, the
  empty range, ranges of several comparators), so the model stands for the package only
  on strings of the two forms above; the concrete theorems below use no other string as a
  valid one.
\<close>

definition MAX_LENGTH :: nat where
  "MAX_LENGTH = 256"

definition MAX_SAFE_INTEGER :: nat where
  "MAX_SAFE_INTEGER = 9007199254740991"

text \<open>\<^verbatim>\<open>s.split(d)\<close> for a one-character separator.\<close>

fun split_on :: "char \<Rightarrow> string \<Rightarrow> string list" where
  "split_on d [] = [[]]"
| "split_on d (c # cs) =
     (if c = d then [] # split_on d cs
      else (case split_on d cs of
              [] \<Rightarrow> [[c]]
            | w # ws \<Rightarrow> (c # w) # ws))"

definition is_digit :: "char \<Rightarrow> bool" where
  "is_digit c = (CHR ''0'' \<le> c \<and> c \<le> CHR ''9'')"

definition digit_val :: "char \<Rightarrow> nat" where
  "digit_val c = of_char c - 48"

definition to_number :: "string \<Rightarrow> nat" where
  "to_number s = foldl (\<lambda>n c. 10 * n + digit_val c) 0 s"

text \<open>\<^verbatim>\<open>/^[0-9]+$/\<close>\<close>

definition all_digits :: "string \<Rightarrow> bool" where
  "all_digits s = (s \<noteq> [] \<and> list_all is_digit s)"

text \<open>\<^verbatim>\<open>NUMERICIDENTIFIER\<close>: \<^verbatim>\<open>0|[1-9]\d*\<close>\<close>

definition is_numeric_identifier :: "string \<Rightarrow> bool" where
  "is_numeric_identifier s = (all_digits s \<and> (s = ''0'' \<or> hd s \<noteq> CHR ''0''))"

text \<open>\<^verbatim>\<open>NONNUMERICIDENTIFIER\<close>: \<^verbatim>\<open>\d*[a-zA-Z-][a-zA-Z0-9-]*\<close>\<close>

definition is_nonnumeric_identifier :: "string \<Rightarrow> bool" where
  "is_nonnumeric_identifier s =
     (list_all (\<lambda>c. is_digit c \<or> is_alpha c \<or> c = CHR ''-'') s \<and> \<not> list_all is_digit s)"

definition is_prerelease_identifier :: "string \<Rightarrow> bool" where
  "is_prerelease_identifier s = (is_numeric_identifier s \<or> is_nonnumeric_identifier s)"

definition is_main_number :: "string \<Rightarrow> bool" where
  "is_main_number s = (is_numeric_identifier s \<and> to_number s \<le> MAX_SAFE_INTEGER)"

text \<open>A parsed \<^verbatim>\<open>SemVer\<close> object; \<open>pre\<close> is its \<^verbatim>\<open>prerelease\<close> array.\<close>

record SemVer =
  major :: nat
  minor :: nat
  patch :: nat
  pre :: "string list"

text \<open>\<^verbatim>\<open>new SemVer(s)\<close>, \<open>None\<close> where the constructor throws.\<close>

definition parse_SemVer :: "string \<Rightarrow> SemVer option" where
  "parse_SemVer s =
     (if length s > MAX_LENGTH then None
      else
        (let main = takeWhile (\<lambda>c. c \<noteq> CHR ''-'') s;
             rest = dropWhile (\<lambda>c. c \<noteq> CHR ''-'') s
         in case split_on CHR ''.'' main of
              [a, b, c] \<Rightarrow>
                if is_main_number a \<and> is_main_number b \<and> is_main_number c
                then (if rest = []
                      then Some \<lparr>major = to_number a, minor = to_number b,
                                 patch = to_number c, pre = []\<rparr>
                      else (let ids = split_on CHR ''.'' (tl rest)
                            in if list_all is_prerelease_identifier ids
                               then Some \<lparr>major = to_number a, minor = to_number b,
                                          patch = to_number c, pre = ids\<rparr>
                               else None))
                else None
            | _ \<Rightarrow> None))"

text \<open>
  \<^verbatim>\<open>+id\<close> for a string of digits: the Number nearest to the integer the digits denote,
  as the integer it is. Below \<open>2 ^ 53\<close> every integer is a Number; from there on a
  Number has 53 significant bits, and an integer is rounded to the nearest one, ties
  to the even one. \<open>shift_count n\<close> is the number of low bits rounded away.
\<close>

function shift_count :: "nat \<Rightarrow> nat" where
  "shift_count n = (if n < 9007199254740992 then 0 else Suc (shift_count (n div 2)))"
  by pat_completeness auto
termination
  by (relation "measure id") auto

definition to_double :: "nat \<Rightarrow> nat" where
  "to_double n =
     (let e = shift_count n; q = n div 2 ^ e; r = n mod 2 ^ e
      in if 2 * r > 2 ^ e \<or> (2 * r = 2 ^ e \<and> odd q) then (q + 1) * 2 ^ e else q * 2 ^ e)"

text \<open>
  \<^verbatim>\<open>compareIdentifiers\<close>. The constructor keeps a numeric identifier as a Number when it
  is below \<^verbatim>\<open>MAX_SAFE_INTEGER\<close> and as its string otherwise; here every identifier is
  its text, which for identifiers without leading zeros is equal exactly when the stored
  values are \<^verbatim>\<open>===\<close>. Two identifiers of digits are compared as Numbers.
\<close>

definition compareIdentifiers :: "string \<Rightarrow> string \<Rightarrow> int" where
  "compareIdentifiers a b =
     (let anum = all_digits a; bnum = all_digits b
      in if anum \<and> bnum
         then (if to_double (to_number a) = to_double (to_number b) then 0
               else if to_double (to_number a) < to_double (to_number b) then - 1 else 1)
         else if a = b then 0
         else if anum \<and> \<not> bnum then - 1
         else if bnum \<and> \<not> anum then 1
         else if a < b then - 1 else 1)"

definition compareNumbers :: "nat \<Rightarrow> nat \<Rightarrow> int" where
  "compareNumbers a b = (if a = b then 0 else if a < b then - 1 else 1)"

definition compareMain :: "SemVer \<Rightarrow> SemVer \<Rightarrow> int" where
  "compareMain x y =
     (if compareNumbers (major x) (major y) \<noteq> 0 then compareNumbers (major x) (major y)
      else if compareNumbers (minor x) (minor y) \<noteq> 0 then compareNumbers (minor x) (minor y)
      else compareNumbers (patch x) (patch y))"

fun comparePre_loop :: "string list \<Rightarrow> string list \<Rightarrow> int" where
  "comparePre_loop [] [] = 0"
| "comparePre_loop (a # as) [] = 1"
| "comparePre_loop [] (b # bs) = - 1"
| "comparePre_loop (a # as) (b # bs) =
     (if a = b then comparePre_loop as bs else compareIdentifiers a b)"

definition comparePre :: "SemVer \<Rightarrow> SemVer \<Rightarrow> int" where
  "comparePre x y =
     (if pre x \<noteq> [] \<and> pre y = [] then - 1
      else if pre x = [] \<and> pre y \<noteq> [] then 1
      else if pre x = [] \<and> pre y = [] then 0
      else comparePre_loop (pre x) (pre y))"

definition compare :: "SemVer \<Rightarrow> SemVer \<Rightarrow> int" where
  "compare x y = (if compareMain x y \<noteq> 0 then compareMain x y else comparePre x y)"

text \<open>A \<^verbatim>\<open>Comparator\<close> object: its operator (\<^verbatim>\<open>=\<close> is stored as \<^verbatim>\<open>''\<close>) and its version.\<close>

record Comparator =
  operator :: string
  semver_of :: SemVer

definition cmp :: "SemVer \<Rightarrow> string \<Rightarrow> SemVer \<Rightarrow> bool" where
  "cmp a opr b =
     (if opr = [] then compare a b = 0
      else if opr = ''>'' then compare a b > 0
      else if opr = ''>='' then compare a b \<ge> 0
      else if opr = ''<'' then compare a b < 0
      else if opr = ''<='' then compare a b \<le> 0
      else False)"

text \<open>The upper bounds \<^verbatim>\<open>replaceCaret\<close> and \<^verbatim>\<open>replaceTilde\<close> compute.\<close>

definition caret_upper :: "SemVer \<Rightarrow> SemVer" where
  "caret_upper v =
     (if major v \<noteq> 0 then \<lparr>major = major v + 1, minor = 0, patch = 0, pre = []\<rparr>
      else if minor v \<noteq> 0 then \<lparr>major = 0, minor = minor v + 1, patch = 0, pre = []\<rparr>
      else \<lparr>major = 0, minor = 0, patch = patch v + 1, pre = []\<rparr>)"

definition tilde_upper :: "SemVer \<Rightarrow> SemVer" where
  "tilde_upper v = \<lparr>major = major v, minor = minor v + 1, patch = 0, pre = []\<rparr>"

definition bounded :: "SemVer \<Rightarrow> bool" where
  "bounded v =
     (major v \<le> MAX_SAFE_INTEGER \<and> minor v \<le> MAX_SAFE_INTEGER \<and> patch v \<le> MAX_SAFE_INTEGER)"

text \<open>
  \<^verbatim>\<open>new Range(r).set[0]\<close>, the comparators of the range, \<open>None\<close> where the constructor
  throws.
\<close>

definition parse_Range :: "string \<Rightarrow> Comparator list option" where
  "parse_Range r =
     (if startsWith r ''^''
      then (case parse_SemVer (drop 1 r) of
              None \<Rightarrow> None
            | Some v \<Rightarrow>
                if bounded (caret_upper v)
                then Some [\<lparr>operator = ''>='', semver_of = v\<rparr>,
                           \<lparr>operator = ''<'', semver_of = caret_upper v\<rparr>]
                else None)
      else if startsWith r ''~''
      then (case parse_SemVer (drop 1 r) of
              None \<Rightarrow> None
            | Some v \<Rightarrow>
                if bounded (tilde_upper v)
                then Some [\<lparr>operator = ''>='', semver_of = v\<rparr>,
                           \<lparr>operator = ''<'', semver_of = tilde_upper v\<rparr>]
                else None)
      else if startsWith r ''>='' \<or> startsWith r ''<=''
      then (case parse_SemVer (drop 2 r) of
              None \<Rightarrow> None
            | Some v \<Rightarrow> Some [\<lparr>operator = take 2 r, semver_of = v\<rparr>])
      else if startsWith r ''>'' \<or> startsWith r ''<''
      then (case parse_SemVer (drop 1 r) of
              None \<Rightarrow> None
            | Some v \<Rightarrow> Some [\<lparr>operator = take 1 r, semver_of = v\<rparr>])
      else if startsWith r ''=''
      then (case parse_SemVer (drop 1 r) of
              None \<Rightarrow> None
            | Some v \<Rightarrow> Some [\<lparr>operator = [], semver_of = v\<rparr>])
      else (case parse_SemVer r of
              None \<Rightarrow> None
            | Some v \<Rightarrow> Some [\<lparr>operator = [], semver_of = v\<rparr>]))"

text \<open>
  \<^verbatim>\<open>testSet\<close>: every comparator accepts the version, and a prerelease version is accepted
  only when a comparator with a prerelease has the same major, minor and patch numbers.
\<close>

definition testSet :: "Comparator list \<Rightarrow> SemVer \<Rightarrow> bool" where
  "testSet cs v =
     (list_all (\<lambda>c. cmp v (operator c) (semver_of c)) cs \<and>
      (pre v = [] \<or>
       list_ex (\<lambda>c. pre (semver_of c) \<noteq> [] \<and> major (semver_of c) = major v \<and>
                    minor (semver_of c) = minor v \<and> patch (semver_of c) = patch v) cs))"

text \<open>
  \<^verbatim>\<open>Range.prototype.test\<close>: a falsy version is not in the range, and a string that is not
  a version makes the \<^verbatim>\<open>SemVer\<close> constructor throw.
\<close>

definition Range_test :: "Comparator list \<Rightarrow> string option \<Rightarrow> error + bool" where
  "Range_test cs v =
     (case v of
        None \<Rightarrow> Inr False
      | Some s \<Rightarrow>
          if s = [] then Inr False
          else (case parse_SemVer s of
                  None \<Rightarrow> Inl TypeError
                | Some x \<Rightarrow> Inr (testSet cs x)))"

definition semver_satisfies :: "string option \<Rightarrow> string \<Rightarrow> error + bool" where
  "semver_satisfies v r =
     (case parse_Range r of
        None \<Rightarrow> Inr False
      | Some cs \<Rightarrow> Range_test cs v)"

definition semver_lt :: "string \<Rightarrow> string \<Rightarrow> error + bool" where
  "semver_lt a b =
     (case parse_SemVer a of
        None \<Rightarrow> Inl TypeError
      | Some x \<Rightarrow>
          (case parse_SemVer b of
             None \<Rightarrow> Inl TypeError
           | Some y \<Rightarrow> Inr (compare x y < 0)))"

definition semver_gt :: "string \<Rightarrow> string \<Rightarrow> error + bool" where
  "semver_gt a b =
     (case parse_SemVer a of
        None \<Rightarrow> Inl TypeError
      | Some x \<Rightarrow>
          (case parse_SemVer b of
             None \<Rightarrow> Inl TypeError
           | Some y \<Rightarrow> Inr (compare x y > 0)))"

text \<open>
  \<^verbatim>\<open>maxSatisfying\<close>: an invalid range gives \<^verbatim>\<open>null\<close>; the loop keeps the greatest version
  the range accepts, as the pair of the string and its parsed form.
\<close>

fun maxSatisfying_loop ::
    "Comparator list \<Rightarrow> string list \<Rightarrow> (string \<times> SemVer) option \<Rightarrow> error + string option" where
  "maxSatisfying_loop cs [] acc = Inr (map_option fst acc)"
| "maxSatisfying_loop cs (v # vs) acc =
     (case Range_test cs (Some v) of
        Inl e \<Rightarrow> Inl e
      | Inr False \<Rightarrow> maxSatisfying_loop cs vs acc
      | Inr True \<Rightarrow>
          (case parse_SemVer v of
             None \<Rightarrow> Inl TypeError
           | Some x \<Rightarrow>
               (case acc of
                  None \<Rightarrow> maxSatisfying_loop cs vs (Some (v, x))
                | Some (m, mx) \<Rightarrow>
                    if compare mx x = - 1 then maxSatisfying_loop cs vs (Some (v, x))
                    else maxSatisfying_loop cs vs acc)))"

definition semver_maxSatisfying :: "string list \<Rightarrow> string \<Rightarrow> error + string option" where
  "semver_maxSatisfying versions r =
     (case parse_Range r of
        None \<Rightarrow> Inr None
      | Some cs \<Rightarrow> maxSatisfying_loop cs versions None)"

text \<open>
  \<^verbatim>\<open>ltr(version, range)\<close>, which is \<^verbatim>\<open>outside(version, range, '<')\<close>. The loop over the
  comparators keeps \<open>high\<close>, the comparator of the least version, and \<open>low\<close>, the
  comparator of the greatest one (the names are those of the \<^verbatim>\<open>'>'\<close> direction).
\<close>

fun outside_scan :: "Comparator list \<Rightarrow> Comparator \<times> Comparator \<Rightarrow> Comparator \<times> Comparator" where
  "outside_scan [] hl = hl"
| "outside_scan (c # cs) (high, low) =
     (if compare (semver_of c) (semver_of high) < 0 then outside_scan cs (c, low)
      else if compare (semver_of c) (semver_of low) > 0 then outside_scan cs (high, c)
      else outside_scan cs (high, low))"

definition semver_ltr :: "string \<Rightarrow> string \<Rightarrow> error + bool" where
  "semver_ltr v r =
     (case parse_SemVer v of
        None \<Rightarrow> Inl TypeError
      | Some x \<Rightarrow>
          (case parse_Range r of
             None \<Rightarrow> Inl TypeError
           | Some [] \<Rightarrow> Inl TypeError
           | Some (c # cs) \<Rightarrow>
               if testSet (c # cs) x then Inr False
               else
                 (let (high, low) = outside_scan (c # cs) (c, c)
                  in if operator high = ''<'' \<or> operator high = ''<='' then Inr False
                     else if (operator low = [] \<or> operator low = ''<'') \<and>
                             compare x (semver_of low) \<ge> 0 then Inr False
                     else if operator low = ''<='' \<and> compare x (semver_of low) > 0
                          then Inr False
                     else Inr True)))"

definition semver_prerelease :: "string \<Rightarrow> string list option" where
  "semver_prerelease v =
     (case parse_SemVer v of
        None \<Rightarrow> None
      | Some x \<Rightarrow> if pre x = [] then None else Some (pre x))"

definition semver_Range_operator :: "string \<Rightarrow> error + jsval" where
  "semver_Range_operator r =
     (case parse_Range r of
        None \<Rightarrow> Inl TypeError
      | Some [] \<Rightarrow> Inl TypeError
      | Some (c # cs) \<Rightarrow> Inr (JStr (operator c)))"

definition semver_model :: semver where
  "semver_model =
     \<lparr>validRange = (\<lambda>r. parse_Range r \<noteq> None),
      prerelease = semver_prerelease,
      ltr = semver_ltr,
      lt = semver_lt,
      gt = semver_gt,
      satisfies = semver_satisfies,
      maxSatisfying = semver_maxSatisfying,
      Range_operator = semver_Range_operator\<rparr>"

section \<open>Arrays as objects of a store\<close>

text \<open>
  Whether \<^verbatim>\<open>applyTagFilterRules\<close> changes the array it is given depends on which array
  each step writes to, which a list-valued function cannot say. Here an array is an
  address into a store. \<^verbatim>\<open>slice\<close> and \<^verbatim>\<open>filter\<close> allocate the array they return,
  \<^verbatim>\<open>reduce\<close> starts from a new empty array literal and \<^verbatim>\<open>push\<close>es to it, and \<^verbatim>\<open>sort\<close>
  sorts the array it is called on in place and returns the same array. The elements are
  never assigned to: \<^verbatim>\<open>removeAmbiguousTagNames\<close> builds new objects.
\<close>

record store =
  arrays :: "nat \<Rightarrow> TaggedVersion list"
  fresh :: nat

definition new_array :: "TaggedVersion list \<Rightarrow> store \<Rightarrow> nat \<times> store" where
  "new_array xs st =
     (fresh st, st\<lparr>arrays := (arrays st)(fresh st := xs), fresh := Suc (fresh st)\<rparr>)"

definition push :: "nat \<Rightarrow> TaggedVersion \<Rightarrow> store \<Rightarrow> store" where
  "push a x st = st\<lparr>arrays := (arrays st)(a := arrays st a @ [x])\<rparr>"

definition slice_st :: "nat \<Rightarrow> store \<Rightarrow> nat \<times> store" where
  "slice_st this st = new_array (arrays st this) st"

definition removeExactVersions_st :: "nat \<Rightarrow> string option \<Rightarrow> store \<Rightarrow> nat \<times> store" where
  "removeExactVersions_st this v st =
     new_array (filter (\<lambda>t. Some (version t) \<noteq> v) (arrays st this)) st"

definition removeTagsWithName_st :: "nat \<Rightarrow> string \<Rightarrow> store \<Rightarrow> nat \<times> store" where
  "removeTagsWithName_st this n st =
     new_array (filter (\<lambda>t. name t \<noteq> n) (arrays st this)) st"

definition removeOlderVersions_st ::
    "semver \<Rightarrow> nat \<Rightarrow> string \<Rightarrow> store \<Rightarrow> (error + nat) \<times> store" where
  "removeOlderVersions_st sv this versionRange st =
     (case filterE (\<lambda>t. case isOlderVersion sv (version t) versionRange of
                          Inl e \<Rightarrow> Inl e
                        | Inr b \<Rightarrow> Inr (\<not> b)) (arrays st this) of
        Inl e \<Rightarrow> (Inl e, st)
      | Inr ys \<Rightarrow> (let (a, st') = new_array ys st in (Inr a, st')))"

definition reduceTagsByUniqueNames_st :: "nat \<Rightarrow> store \<Rightarrow> nat \<times> store" where
  "reduceTagsByUniqueNames_st this st =
     (let (unique, st1) = new_array [] st
      in (unique,
          fold (\<lambda>current s.
                  if find (\<lambda>x. name x = name current) (arrays s unique) = None
                  then push unique current s else s)
            (arrays st this) st1))"

definition removeAmbiguousTagNames_st :: "regex \<Rightarrow> nat \<Rightarrow> store \<Rightarrow> nat \<times> store" where
  "removeAmbiguousTagNames_st rx this st =
     (let (results, st1) = new_array [] st
      in (results,
          fold (\<lambda>current s.
                  case rx (name current) of
                    None \<Rightarrow> push results \<lparr>name = name current, version = version current\<rparr> s
                  | Some m \<Rightarrow>
                      if length m > 1
                      then push results \<lparr>name = toLowerCase m, version = version current\<rparr> s
                      else s)
            (arrays st this) st1))"

text \<open>
  \<^verbatim>\<open>a.sort(cmp)\<close> writes the sorted sequence to \<open>a\<close> itself. When the comparator throws,
  the array is left as it was in the model (an engine may leave it partly permuted).
\<close>

definition sort_st ::
    "(TaggedVersion \<Rightarrow> TaggedVersion \<Rightarrow> error + int) \<Rightarrow> nat \<Rightarrow> store \<Rightarrow> (error + nat) \<times> store" where
  "sort_st comparefn a st =
     (case array_sort comparefn (arrays st a) of
        Inl e \<Rightarrow> (Inl e, st)
      | Inr ys \<Rightarrow> (Inr a, st\<lparr>arrays := (arrays st)(a := ys)\<rparr>))"

definition applyTagFilterRules_st ::
    "semver \<Rightarrow> regex \<Rightarrow> nat \<Rightarrow> string \<Rightarrow> string option \<Rightarrow> string \<Rightarrow> bool \<Rightarrow> store
      \<Rightarrow> (error + nat) \<times> store" where
  "applyTagFilterRules_st sv rx tags requestedVersion satisifiesVersion latestVersion
       matchNotFound st =
     (let (f0, st0) = slice_st tags st
      in case (if validRange sv requestedVersion
               then removeOlderVersions_st sv f0 requestedVersion st0
               else (Inr f0, st0)) of
           (Inl e, st1) \<Rightarrow> (Inl e, st1)
         | (Inr f1, st1) \<Rightarrow>
             (let (f2, st2) = removeExactVersions_st f1 satisifiesVersion st1;
                  (f3, st3) = removeExactVersions_st f2 (Some latestVersion) st2
              in case (if matchNotFound
                       then removeOlderVersions_st sv f3 latestVersion st3
                       else (Inr f3, st3)) of
                   (Inl e, st4) \<Rightarrow> (Inl e, st4)
                 | (Inr f4, st4) \<Rightarrow>
                     (let (f5, st5) = removeAmbiguousTagNames_st rx f4 st4;
                          (f6, st6) = reduceTagsByUniqueNames_st f5 st5;
                          (f7, st7) = removeTagsWithName_st f6 ''latest'' st6
                      in sort_st (sortTagsByRecentVersion sv) f7 st7)))"

section \<open>Orderings named by the specification\<close>

text \<open>
  The semantic-version order is the one \<^verbatim>\<open>semver.lt\<close> and \<^verbatim>\<open>semver.gt\<close> decide. A
  sequence of tags is in descending order, ties broken by descending name, when every
  tag stands before the tags of a smaller version and before the tags of an equal
  version whose name is not greater.
\<close>

definition may_precede :: "semver \<Rightarrow> TaggedVersion \<Rightarrow> TaggedVersion \<Rightarrow> bool" where
  "may_precede sv a b =
     (gt sv (version a) (version b) = Inr True \<or>
      (lt sv (version a) (version b) = Inr False \<and>
       gt sv (version a) (version b) = Inr False \<and> name a \<ge> name b))"

definition sorted_by_recent_version :: "semver \<Rightarrow> TaggedVersion list \<Rightarrow> bool" where
  "sorted_by_recent_version sv ts = sorted_wrt (may_precede sv) ts"

text \<open>
  What the order of the package is taken to be on a set of version strings: \<^verbatim>\<open>lt\<close> and
  \<^verbatim>\<open>gt\<close> return on them, \<^verbatim>\<open>gt\<close> is the converse of \<^verbatim>\<open>lt\<close>, and \<^verbatim>\<open>lt\<close> is a strict weak
  order (asymmetric, and "not less" is transitive). It is a property of the set: the
  comparison of the package orders most sets of valid versions so, but not all of them.
\<close>

definition semver_order_on :: "semver \<Rightarrow> string set \<Rightarrow> bool" where
  "semver_order_on sv S =
     ((\<forall>a\<in>S. \<forall>b\<in>S. (\<exists>p. lt sv a b = Inr p) \<and> gt sv a b = lt sv b a) \<and>
      (\<forall>a\<in>S. \<forall>b\<in>S. lt sv a b = Inr True \<longrightarrow> lt sv b a = Inr False) \<and>
      (\<forall>a\<in>S. \<forall>b\<in>S. \<forall>c\<in>S.
         lt sv a b = Inr False \<and> lt sv b c = Inr False \<longrightarrow> lt sv a c = Inr False))"

text \<open>
  What \<^verbatim>\<open>maxSatisfying\<close> is documented to return: \<^verbatim>\<open>null\<close> or one of the versions of the
  list it is given.
\<close>

definition maxSatisfying_selects :: "semver \<Rightarrow> bool" where
  "maxSatisfying_selects sv =
     (\<forall>l r v. maxSatisfying sv l r = Inr (Some v) \<longrightarrow> v \<in> set l)"

text \<open>
  The value of the local variable \<^verbatim>\<open>testVersion\<close> of \<^verbatim>\<open>isOlderVersion\<close> when
  \<^verbatim>\<open>semver.ltr\<close> is called: the version itself, or the version without its prerelease
  suffix when the requested version is no prerelease and the version is one.
\<close>

definition testVersion_of :: "semver \<Rightarrow> string \<Rightarrow> string \<Rightarrow> string" where
  "testVersion_of sv v requestedVersion =
     (case prerelease sv requestedVersion of
        Some requestedVersionComponents \<Rightarrow> v
      | None \<Rightarrow>
          (case prerelease sv v of
             None \<Rightarrow> v
           | Some testVersionComponents \<Rightarrow>
               str_replace v (''-'' @ join ''.'' testVersionComponents) []))"

text \<open>
  \<open>preserves st st'\<close>: every array that exists in \<open>st\<close> exists in \<open>st'\<close> with the same
  elements in the same order.
\<close>

definition preserves :: "store \<Rightarrow> store \<Rightarrow> bool" where
  "preserves st st' = (fresh st \<le> fresh st' \<and> (\<forall>a<fresh st. arrays st' a = arrays st a))"


section \<open>Lists: pushing folds, fallible filter, the sort as a permutation\<close>

text \<open>
  The source builds arrays by pushing inside \<^verbatim>\<open>forEach\<close> and \<^verbatim>\<open>reduce\<close>; such a fold is
  a filter. Whatever the comparator does, a sort that returns has permuted its input.
\<close>

lemma fold_push_filter:
  "fold (\<lambda>v acc. if P v then acc @ [v] else acc) xs acc = acc @ filter P xs"
  by (induction xs arbitrary: acc) auto

lemma pluckSemverVersions_filter:
  "pluckSemverVersions sv versions = filter (validRange sv) versions"
  by (simp add: pluckSemverVersions_def fold_push_filter)

lemma filterE_Inr:
  "filterE p xs = Inr ys \<Longrightarrow> ys = filter (\<lambda>x. p x = Inr True) xs"
  by (induction xs arbitrary: ys) (auto split: sum.splits if_splits)

lemma filterE_all_kept:
  "\<forall>x\<in>set xs. p x = Inr True \<Longrightarrow> filterE p xs = Inr xs"
  by (induction xs) auto

lemma insertE_mset:
  "insertE c x ys = Inr zs \<Longrightarrow> mset zs = add_mset x (mset ys)"
  by (induction ys arbitrary: zs) (auto split: sum.splits if_splits)

lemma array_sort_mset:
  "array_sort c xs = Inr ys \<Longrightarrow> mset ys = mset xs"
  by (induction xs arbitrary: ys) (auto split: sum.splits dest: insertE_mset)

lemma array_sort_set:
  "array_sort c xs = Inr ys \<Longrightarrow> set ys = set xs"
  by (metis array_sort_mset mset_eq_setD)

lemma array_sort_distinct_map:
  assumes "array_sort c xs = Inr ys"
  shows "distinct (map f ys) = distinct (map f xs)"
proof -
  have "mset (map f ys) = mset (map f xs)"
    using array_sort_mset [OF assms] by simp
  then show ?thesis
    by (rule mset_eq_imp_distinct_iff)
qed

lemma reduce_unique_fold:
  "distinct (map name acc) \<Longrightarrow>
   distinct (map name (fold (\<lambda>current unique.
             if find (\<lambda>x. name x = name current) unique = None
             then unique @ [current] else unique) xs acc))"
proof (induction xs arbitrary: acc)
  case Nil
  then show ?case by simp
next
  case (Cons x xs)
  show ?case
  proof (cases "find (\<lambda>y. name y = name x) acc = None")
    case True
    then have "name x \<notin> name ` set acc"
      by (auto simp: find_None_iff)
    with Cons.prems have "distinct (map name (acc @ [x]))" by simp
    from Cons.IH [OF this] True show ?thesis by simp
  next
    case False
    then have "find (\<lambda>y. name y = name x) acc \<noteq> None" .
    with Cons.IH [OF Cons.prems] show ?thesis by (simp del: find_None_iff not_None_eq)
  qed
qed

lemma reduceTagsByUniqueNames_distinct:
  "distinct (map name (reduceTagsByUniqueNames ts))"
  unfolding reduceTagsByUniqueNames_def by (rule reduce_unique_fold) simp

section \<open>The comparator and the order of the package\<close>

text \<open>
  What a result of \<^verbatim>\<open>sortTagsByRecentVersion\<close> says about its two tags, and the facts of
  \<open>semver_order_on\<close> one at a time.
\<close>

lemma sortDescending_le0: "sortDescending a b \<le> 0 \<longleftrightarrow> a \<ge> b"
  by (auto simp: sortDescending_def)

lemma cmp_le0_precede:
  assumes "sortTagsByRecentVersion sv x y = Inr c" "c \<le> 0"
  shows "may_precede sv x y"
proof -
  from assms have l: "lt sv (version x) (version y) = Inr False"
    by (cases "lt sv (version x) (version y)")
       (auto simp: sortTagsByRecentVersion_def Let_def split: bool.splits)
  show ?thesis
  proof (cases "gt sv (version x) (version y)")
    case (Inl e)
    with assms l show ?thesis by (simp add: sortTagsByRecentVersion_def Let_def)
  next
    case (Inr g)
    with assms l show ?thesis
      by (cases g) (auto simp: sortTagsByRecentVersion_def Let_def may_precede_def sortDescending_def split: if_splits)
  qed
qed

lemma cmp_gt0_cases:
  assumes "sortTagsByRecentVersion sv x y = Inr c" "\<not> c \<le> 0"
  shows "lt sv (version x) (version y) = Inr True \<or>
    (lt sv (version x) (version y) = Inr False \<and> gt sv (version x) (version y) = Inr False \<and>
     name x \<le> name y)"
proof (cases "lt sv (version x) (version y)")
  case (Inl e)
  with assms show ?thesis by (simp add: sortTagsByRecentVersion_def Let_def)
next
  case l: (Inr p)
  show ?thesis
  proof (cases p)
    case True
    with l show ?thesis by simp
  next
    case False
    show ?thesis
    proof (cases "gt sv (version x) (version y)")
      case (Inl e)
      with assms l False show ?thesis by (simp add: sortTagsByRecentVersion_def Let_def)
    next
      case (Inr g)
      with assms l False show ?thesis
        by (cases g) (auto simp: sortTagsByRecentVersion_def Let_def sortDescending_def split: if_splits)
    qed
  qed
qed


lemma order_conv:
  assumes "semver_order_on sv S" "x \<in> S" "y \<in> S"
  shows "gt sv x y = lt sv y x"
proof -
  from assms(1) have "\<forall>a\<in>S. \<forall>b\<in>S. (\<exists>p. lt sv a b = Inr p) \<and> gt sv a b = lt sv b a"
    unfolding semver_order_on_def by (rule conjunct1)
  with assms(2,3) show ?thesis by blast
qed

lemma order_tot:
  assumes "semver_order_on sv S" "x \<in> S" "y \<in> S" "lt sv x y \<noteq> Inr True"
  shows "lt sv x y = Inr False"
proof -
  from assms(1) have "\<forall>a\<in>S. \<forall>b\<in>S. (\<exists>p. lt sv a b = Inr p) \<and> gt sv a b = lt sv b a"
    unfolding semver_order_on_def by (rule conjunct1)
  with assms(2,3) obtain p where "lt sv x y = Inr p" by blast
  with assms(4) show ?thesis by (cases p) simp_all
qed

lemma order_asym:
  assumes "semver_order_on sv S" "x \<in> S" "y \<in> S" "lt sv x y = Inr True"
  shows "lt sv y x = Inr False"
proof -
  from assms(1) have "\<forall>a\<in>S. \<forall>b\<in>S. lt sv a b = Inr True \<longrightarrow> lt sv b a = Inr False"
    unfolding semver_order_on_def by (elim conjE)
  with assms(2-4) show ?thesis by blast
qed

lemma order_ntr:
  assumes "semver_order_on sv S" "x \<in> S" "y \<in> S" "z \<in> S"
    and "lt sv x y = Inr False" "lt sv y z = Inr False"
  shows "lt sv x z = Inr False"
proof -
  from assms(1) have "\<forall>a\<in>S. \<forall>b\<in>S. \<forall>c\<in>S.
      lt sv a b = Inr False \<and> lt sv b c = Inr False \<longrightarrow> lt sv a c = Inr False"
    unfolding semver_order_on_def by (elim conjE)
  with assms(2-6) show ?thesis by blast
qed

lemma cmp_gt0_precede:
  assumes "sortTagsByRecentVersion sv x y = Inr c" "\<not> c \<le> 0"
    and "semver_order_on sv S" "version x \<in> S" "version y \<in> S"
  shows "may_precede sv y x"
proof -
  have conv: "gt sv (version y) (version x) = lt sv (version x) (version y)"
    "gt sv (version x) (version y) = lt sv (version y) (version x)"
    using assms(3-5) by (simp_all add: order_conv)
  from cmp_gt0_cases [OF assms(1,2)] show ?thesis
    by (auto simp: may_precede_def conv)
qed

section \<open>The sort returns a sorted sequence\<close>

text \<open>
  On versions the package orders, "may stand before" is transitive, so inserting a tag
  into a sorted sequence gives a sorted sequence.
\<close>

lemma may_precede_cases:
  assumes "semver_order_on sv S" "version a \<in> S" "version b \<in> S" "may_precede sv a b"
  shows "lt sv (version b) (version a) = Inr True \<or>
    (lt sv (version a) (version b) = Inr False \<and> lt sv (version b) (version a) = Inr False \<and>
     name b \<le> name a)"
  using assms(4) order_conv [OF assms(1-3)]
  by (auto simp: may_precede_def)

lemma may_precede_intro:
  assumes "semver_order_on sv S" "version a \<in> S" "version b \<in> S"
    and "lt sv (version b) (version a) = Inr True \<or>
    (lt sv (version a) (version b) = Inr False \<and> lt sv (version b) (version a) = Inr False \<and>
     name b \<le> name a)"
  shows "may_precede sv a b"
  using assms(4) order_conv [OF assms(1-3)]
  by (auto simp: may_precede_def)

lemma may_precede_trans:
  assumes ord: "semver_order_on sv S"
    and S: "version a \<in> S" "version b \<in> S" "version c \<in> S"
    and ab: "may_precede sv a b" and bc: "may_precede sv b c"
  shows "may_precede sv a c"
proof -
  let ?a = "version a" and ?b = "version b" and ?c = "version c"
  note tot = order_tot [OF ord] and asym = order_asym [OF ord] and ntr = order_ntr [OF ord]
  from may_precede_cases [OF ord S(1,2) ab] consider (G) "lt sv ?b ?a = Inr True"
    | (T) "lt sv ?a ?b = Inr False" "lt sv ?b ?a = Inr False" "name b \<le> name a"
    by blast
  then show ?thesis
  proof cases
    case G
    have bc': "lt sv ?b ?c = Inr False"
      using may_precede_cases [OF ord S(2,3) bc] asym [OF S(3) S(2)] by blast
    have "lt sv ?c ?a = Inr True"
    proof (rule ccontr)
      assume "lt sv ?c ?a \<noteq> Inr True"
      then have "lt sv ?c ?a = Inr False" by (rule tot [OF S(3) S(1)])
      from ntr [OF S(2) S(3) S(1) bc' this] G show False by simp
    qed
    then show ?thesis by (intro may_precede_intro [OF ord S(1) S(3)] disjI1)
  next
    case T
    from may_precede_cases [OF ord S(2,3) bc] consider (G2) "lt sv ?c ?b = Inr True"
      | (T2) "lt sv ?b ?c = Inr False" "lt sv ?c ?b = Inr False" "name c \<le> name b"
      by blast
    then show ?thesis
    proof cases
      case G2
      have "lt sv ?c ?a = Inr True"
      proof (rule ccontr)
        assume "lt sv ?c ?a \<noteq> Inr True"
        then have "lt sv ?c ?a = Inr False" by (rule tot [OF S(3) S(1)])
        from ntr [OF S(3) S(1) S(2) this T(1)] G2 show False by simp
      qed
      then show ?thesis by (intro may_precede_intro [OF ord S(1) S(3)] disjI1)
    next
      case T2
      have "lt sv ?a ?c = Inr False" by (rule ntr [OF S(1) S(2) S(3) T(1) T2(1)])
      moreover have "lt sv ?c ?a = Inr False" by (rule ntr [OF S(3) S(2) S(1) T2(2) T(2)])
      moreover have "name c \<le> name a" using T2(3) T(3) by (rule order_trans)
      ultimately show ?thesis by (intro may_precede_intro [OF ord S(1) S(3)] disjI2 conjI)
    qed
  qed
qed

lemma insertE_set:
  "insertE c x ys = Inr zs \<Longrightarrow> set zs = insert x (set ys)"
proof (induction ys arbitrary: zs)
  case Nil
  then show ?case by auto
next
  case (Cons y ys)
  from Cons.prems obtain k where k: "c x y = Inr k"
    by (cases "c x y") simp_all
  show ?case
  proof (cases "k \<le> 0")
    case True
    with Cons.prems k show ?thesis by auto
  next
    case False
    with Cons.prems k obtain ws where ws: "insertE c x ys = Inr ws" and zs: "zs = y # ws"
      by (cases "insertE c x ys") simp_all
    from Cons.IH [OF ws] zs show ?thesis by auto
  qed
qed

lemma insertE_sorted:
  assumes ord: "semver_order_on sv S"
  shows "insertE (sortTagsByRecentVersion sv) x ys = Inr zs \<Longrightarrow>
    version x \<in> S \<Longrightarrow> version ` set ys \<subseteq> S \<Longrightarrow>
    sorted_wrt (may_precede sv) ys \<Longrightarrow> sorted_wrt (may_precede sv) zs"
proof (induction ys arbitrary: zs)
  case Nil
  then show ?case by auto
next
  case (Cons y ys)
  from Cons.prems(1) obtain c where c: "sortTagsByRecentVersion sv x y = Inr c"
    by (cases "sortTagsByRecentVersion sv x y") simp_all
  from Cons.prems(3) have yS: "version y \<in> S" and ysS: "version ` set ys \<subseteq> S" by auto
  from Cons.prems(4) have ys: "sorted_wrt (may_precede sv) ys"
    and yz: "\<forall>z\<in>set ys. may_precede sv y z" by simp_all
  show ?case
  proof (cases "c \<le> 0")
    case True
    with Cons.prems(1) c have zs: "zs = x # y # ys" by simp
    have xy: "may_precede sv x y" using c True by (rule cmp_le0_precede)
    have xz: "\<forall>z\<in>set ys. may_precede sv x z"
    proof
      fix z assume z: "z \<in> set ys"
      with ysS have "version z \<in> S" by auto
      moreover from yz z have "may_precede sv y z" by (rule bspec)
      ultimately show "may_precede sv x z"
        using may_precede_trans [OF ord Cons.prems(2) yS _ xy] by blast
    qed
    show ?thesis unfolding zs using xy xz yz ys by simp
  next
    case False
    with Cons.prems(1) c obtain ws where ws: "insertE (sortTagsByRecentVersion sv) x ys = Inr ws"
      and zs: "zs = y # ws"
      by (cases "insertE (sortTagsByRecentVersion sv) x ys") simp_all
    have yx: "may_precede sv y x"
      using c False ord Cons.prems(2) yS by (rule cmp_gt0_precede)
    have sw: "sorted_wrt (may_precede sv) ws"
      by (rule Cons.IH [OF ws Cons.prems(2) ysS ys])
    have "set ws = insert x (set ys)" by (rule insertE_set [OF ws])
    then show ?thesis unfolding zs using yx yz sw by simp
  qed
qed

lemma array_sort_sorted:
  assumes ord: "semver_order_on sv S"
  shows "array_sort (sortTagsByRecentVersion sv) xs = Inr ys \<Longrightarrow>
    version ` set xs \<subseteq> S \<Longrightarrow> sorted_wrt (may_precede sv) ys"
proof (induction xs arbitrary: ys)
  case Nil
  then show ?case by simp
next
  case (Cons x xs)
  from Cons.prems(1) obtain ws where ws: "array_sort (sortTagsByRecentVersion sv) xs = Inr ws"
    and ins: "insertE (sortTagsByRecentVersion sv) x ws = Inr ys"
    by (cases "array_sort (sortTagsByRecentVersion sv) xs") simp_all
  from Cons.prems(2) have xS: "version x \<in> S" and xsS: "version ` set xs \<subseteq> S" by auto
  have sw: "sorted_wrt (may_precede sv) ws" by (rule Cons.IH [OF ws xsS])
  have "set ws = set xs" by (rule array_sort_set [OF ws])
  with xsS have wS: "version ` set ws \<subseteq> S" by simp
  show ?case by (rule insertE_sorted [OF ord ins xS wS sw])
qed

section \<open>Evaluating the model; the tag filter pipeline\<close>

text \<open>
  The facts that evaluate the model of the package and the functions of the source on
  concrete strings, and the last steps of the pipeline.
\<close>

lemmas str_defs = is_alpha_def is_digit_def digit_val_def to_number_def all_digits_def
  is_numeric_identifier_def is_nonnumeric_identifier_def is_prerelease_identifier_def
  is_main_number_def MAX_LENGTH_def MAX_SAFE_INTEGER_def

lemma to_double_small: "n < 9007199254740992 \<Longrightarrow> to_double n = n"
  by (simp add: to_double_def)

lemma model_fields:
  "validRange semver_model r = (parse_Range r \<noteq> None)"
  "prerelease semver_model = semver_prerelease"
  "ltr semver_model = semver_ltr"
  "lt semver_model = semver_lt"
  "gt semver_model = semver_gt"
  "satisfies semver_model = semver_satisfies"
  "maxSatisfying semver_model = semver_maxSatisfying"
  "Range_operator semver_model = semver_Range_operator"
  by (simp_all add: semver_model_def)

lemmas sem_defs = model_fields semver_prerelease_def semver_ltr_def semver_lt_def semver_gt_def
  semver_satisfies_def semver_maxSatisfying_def semver_Range_operator_def
  Range_test_def testSet_def cmp_def compare_def compareMain_def comparePre_def compareNumbers_def
  compareIdentifiers_def to_double_small parse_SemVer_def parse_Range_def str_defs caret_upper_def tilde_upper_def
  bounded_def Let_def

lemmas src_defs = buildMapFromVersionList_def pluckSemverVersions_def pluckTagsAndReleases_def
  parseVersion_def deduceMaxSatisfyingFromSemverList_def buildTagsFromVersionMap_def
  latestVersionOf_def olderThanRequested_def newerThanLatest_def isOlderVersion_def
  isFixedVersion_def applyTagFilterRules_def removeOlderVersions_def removeExactVersions_def
  removeAmbiguousTagNames_def reduceTagsByUniqueNames_def removeTagsWithName_def
  sortTagsByRecentVersion_def sortDescending_def formatTagNameRegex_exec_def toLowerCase_def
  lower_char_def

lemma parse_0_9_0: "parse_SemVer ''0.9.0'' = Some \<lparr>major = 0, minor = 9, patch = 0, pre = []\<rparr>"
  by (simp add: parse_SemVer_def str_defs)
lemma parse_1_0_0: "parse_SemVer ''1.0.0'' = Some \<lparr>major = 1, minor = 0, patch = 0, pre = []\<rparr>"
  by (simp add: parse_SemVer_def str_defs)
lemma parse_1_0_0_beta_1: "parse_SemVer ''1.0.0-beta.1'' = Some \<lparr>major = 1, minor = 0, patch = 0, pre = [''beta'', ''1'']\<rparr>"
  by (simp add: parse_SemVer_def str_defs)
lemma parse_1_0_0_beta_2: "parse_SemVer ''1.0.0-beta.2'' = Some \<lparr>major = 1, minor = 0, patch = 0, pre = [''beta'', ''2'']\<rparr>"
  by (simp add: parse_SemVer_def str_defs)
lemma parse_2_0_0_alpha_2: "parse_SemVer ''2.0.0-alpha.2'' = Some \<lparr>major = 2, minor = 0, patch = 0, pre = [''alpha'', ''2'']\<rparr>"
  by (simp add: parse_SemVer_def str_defs)

lemma parse_caret_0_9_0: "parse_SemVer ''^0.9.0'' = None"
  by (simp add: parse_SemVer_def str_defs)
lemma range_caret_0_9_0: "parse_Range ''^0.9.0'' =
    Some [\<lparr>operator = ''>='', semver_of = \<lparr>major = 0, minor = 9, patch = 0, pre = []\<rparr>\<rparr>,
          \<lparr>operator = ''<'', semver_of = \<lparr>major = 0, minor = 10, patch = 0, pre = []\<rparr>\<rparr>]"
  by (simp add: parse_Range_def parse_0_9_0 caret_upper_def bounded_def MAX_SAFE_INTEGER_def)

lemmas parses = parse_0_9_0 parse_1_0_0 parse_1_0_0_beta_1 parse_1_0_0_beta_2 parse_2_0_0_alpha_2
  parse_caret_0_9_0 range_caret_0_9_0

lemma applyTagFilterRules_sortD:
  assumes "applyTagFilterRules sv rx tags rv sat latest notFound = Inr out"
  shows "\<exists>f5. array_sort (sortTagsByRecentVersion sv)
            (removeTagsWithName (reduceTagsByUniqueNames f5) ''latest'') = Inr out"
proof -
  obtain f1 where f1: "(if validRange sv rv then removeOlderVersions sv tags rv else Inr tags) = Inr f1"
    using assms unfolding applyTagFilterRules_def
    by (cases "if validRange sv rv then removeOlderVersions sv tags rv else Inr tags") simp_all
  let ?f3 = "removeExactVersions (removeExactVersions f1 sat) (Some latest)"
  obtain f4 where f4: "(if notFound then removeOlderVersions sv ?f3 latest else Inr ?f3) = Inr f4"
    using assms f1 unfolding applyTagFilterRules_def
    by (cases "if notFound then removeOlderVersions sv ?f3 latest else Inr ?f3")
       (simp_all add: Let_def)
  from assms f1 f4 show ?thesis
    unfolding applyTagFilterRules_def by (auto simp: Let_def)
qed

text \<open>
  Claim C5, amended. Whenever \<^verbatim>\<open>applyTagFilterRules\<close> returns a sequence, the sequence has
  no entry named \<^verbatim>\<open>latest\<close> and no two entries of the same name; and it is sorted in
  descending semantic-version order with ties broken by descending name provided that, when
  it has two or more entries, \<^verbatim>\<open>semver.lt\<close> and \<^verbatim>\<open>semver.gt\<close> order its versions as a
  strict weak order (\<open>semver_order_on\<close>). This holds for every list of tagged versions and
  every combination of the other arguments. The proviso is needed: the comparison of the
  package is not a strict weak order on all versions.
\<close>

theorem applyTagFilterRules_sorted_unique:
  assumes "applyTagFilterRules sv rx tags rv sat latest notFound = Inr out"
    and "2 \<le> length out \<longrightarrow> semver_order_on sv (version ` set out)"
  shows "sorted_by_recent_version sv out \<and> ''latest'' \<notin> name ` set out \<and>
    distinct (map name out)"
proof -
  from applyTagFilterRules_sortD [OF assms(1)] obtain f5 where
    srt: "array_sort (sortTagsByRecentVersion sv)
            (removeTagsWithName (reduceTagsByUniqueNames f5) ''latest'') = Inr out"
    by blast
  let ?f7 = "removeTagsWithName (reduceTagsByUniqueNames f5) ''latest''"
  have set_eq: "set out = set ?f7" by (rule array_sort_set [OF srt])
  have "sorted_by_recent_version sv out"
  proof (cases "2 \<le> length out")
    case True
    with assms(2) have ord: "semver_order_on sv (version ` set out)" by blast
    have "version ` set ?f7 \<subseteq> version ` set out" using set_eq by simp
    from array_sort_sorted [OF ord srt this]
    show ?thesis by (simp add: sorted_by_recent_version_def)
  next
    case False
    then have "length out = 0 \<or> length out = 1" by arith
    then have "out = [] \<or> (\<exists>x. out = [x])"
      by (cases out) auto
    then show ?thesis by (auto simp: sorted_by_recent_version_def)
  qed
  moreover have "''latest'' \<notin> name ` set out"
    unfolding set_eq by (auto simp: removeTagsWithName_def)
  moreover have "distinct (map name out)"
  proof -
    have "distinct (map name (reduceTagsByUniqueNames f5))"
      by (rule reduceTagsByUniqueNames_distinct)
    then have "distinct (map name ?f7)"
      unfolding removeTagsWithName_def by (rule distinct_map_filter)
    then show ?thesis by (simp add: array_sort_distinct_map [OF srt])
  qed
  ultimately show ?thesis by blast
qed

lemma lt_evals:
  "lt semver_model ''1.0.0-beta.1'' ''1.0.0-beta.1'' = Inr False"
  "lt semver_model ''1.0.0-beta.1'' ''2.0.0-alpha.2'' = Inr True"
  "lt semver_model ''2.0.0-alpha.2'' ''1.0.0-beta.1'' = Inr False"
  "lt semver_model ''2.0.0-alpha.2'' ''2.0.0-alpha.2'' = Inr False"
  "gt semver_model ''1.0.0-beta.1'' ''1.0.0-beta.1'' = Inr False"
  "gt semver_model ''1.0.0-beta.1'' ''2.0.0-alpha.2'' = Inr False"
  "gt semver_model ''2.0.0-alpha.2'' ''1.0.0-beta.1'' = Inr True"
  "gt semver_model ''2.0.0-alpha.2'' ''2.0.0-alpha.2'' = Inr False"
  by (simp_all add: sem_defs parses)

lemma order_on_example:
  "semver_order_on semver_model {''2.0.0-alpha.2'', ''1.0.0-beta.1''}"
  unfolding semver_order_on_def by (auto simp: lt_evals)

lemma older_evals:
  "isOlderVersion semver_model ''1.0.0-beta.1'' ''^0.9.0'' = Inr False"
  "isOlderVersion semver_model ''1.0.0-beta.2'' ''^0.9.0'' = Inr False"
  "isOlderVersion semver_model ''2.0.0-alpha.2'' ''^0.9.0'' = Inr False"
  "validRange semver_model ''^0.9.0''"
  by (simp_all add: isOlderVersion_def sem_defs parses)

lemma example_run:
  "applyTagFilterRules semver_model formatTagNameRegex_exec
     [\<lparr>name = ''beta'', version = ''1.0.0-beta.1''\<rparr>,
      \<lparr>name = ''next'', version = ''1.0.0-beta.1''\<rparr>,
      \<lparr>name = ''alpha'', version = ''2.0.0-alpha.2''\<rparr>]
     ''^0.9.0'' (Some ''0.9.0'') ''0.9.0'' False
   = Inr [\<lparr>name = ''alpha'', version = ''2.0.0-alpha.2''\<rparr>,
          \<lparr>name = ''next'', version = ''1.0.0-beta.1''\<rparr>,
          \<lparr>name = ''beta'', version = ''1.0.0-beta.1''\<rparr>]"
  by (simp add: applyTagFilterRules_def removeOlderVersions_def older_evals
      removeExactVersions_def removeAmbiguousTagNames_def reduceTagsByUniqueNames_def
      removeTagsWithName_def sortTagsByRecentVersion_def sortDescending_def
      formatTagNameRegex_exec_def toLowerCase_def lower_char_def is_alpha_def lt_evals)

theorem applyTagFilterRules_sorted_unique_witness:
  "applyTagFilterRules semver_model formatTagNameRegex_exec
     [\<lparr>name = ''beta'', version = ''1.0.0-beta.1''\<rparr>,
      \<lparr>name = ''next'', version = ''1.0.0-beta.1''\<rparr>,
      \<lparr>name = ''alpha'', version = ''2.0.0-alpha.2''\<rparr>]
     ''^0.9.0'' (Some ''0.9.0'') ''0.9.0'' False
   = Inr [\<lparr>name = ''alpha'', version = ''2.0.0-alpha.2''\<rparr>,
          \<lparr>name = ''next'', version = ''1.0.0-beta.1''\<rparr>,
          \<lparr>name = ''beta'', version = ''1.0.0-beta.1''\<rparr>] \<and>
   semver_order_on semver_model {''2.0.0-alpha.2'', ''1.0.0-beta.1''} \<and>
   sorted_by_recent_version semver_model
     [\<lparr>name = ''alpha'', version = ''2.0.0-alpha.2''\<rparr>,
      \<lparr>name = ''next'', version = ''1.0.0-beta.1''\<rparr>,
      \<lparr>name = ''beta'', version = ''1.0.0-beta.1''\<rparr>]"
proof -
  have ord: "semver_order_on semver_model
      (version ` set [\<lparr>name = ''alpha'', version = ''2.0.0-alpha.2''\<rparr>,
          \<lparr>name = ''next'', version = ''1.0.0-beta.1''\<rparr>,
          \<lparr>name = ''beta'', version = ''1.0.0-beta.1''\<rparr>])"
    using order_on_example by simp
  from applyTagFilterRules_sorted_unique [OF example_run] ord example_run order_on_example
  show ?thesis by blast
qed

text \<open>
  The claim as stated fails. The package compares numeric prerelease identifiers as
  Numbers, so \<^verbatim>\<open>9007199254740992\<close> and \<^verbatim>\<open>9007199254740993\<close> tie, and it stops at the first
  pair of identifiers that differ as text. The versions of \<open>cc\<close> and \<open>bb\<close> tie, those of
  \<open>bb\<close> and \<open>aa\<close> tie, and the version of \<open>cc\<close> is less than that of \<open>aa\<close>: the names ask
  for \<open>cc\<close> before \<open>bb\<close> before \<open>aa\<close>, the versions for \<open>aa\<close> before \<open>cc\<close>. The sequence
  returned is not sorted, and no arrangement of the three tags is.
\<close>

lemma to_double_examples:
  "to_double 9007199254740992 = 9007199254740992"
  "to_double 9007199254740993 = 9007199254740992"
  by (simp_all add: to_double_def)

lemma big_identifier_evals:
  "lt semver_model ''1.0.0-9007199254740992.1'' ''1.0.0-9007199254740993.1'' = Inr False"
  "gt semver_model ''1.0.0-9007199254740992.1'' ''1.0.0-9007199254740993.1'' = Inr False"
  "lt semver_model ''1.0.0-9007199254740993.1'' ''1.0.0-9007199254740992.1'' = Inr False"
  "gt semver_model ''1.0.0-9007199254740993.1'' ''1.0.0-9007199254740992.1'' = Inr False"
  "lt semver_model ''1.0.0-9007199254740993.1'' ''1.0.0-9007199254740992.2'' = Inr False"
  "gt semver_model ''1.0.0-9007199254740993.1'' ''1.0.0-9007199254740992.2'' = Inr False"
  "lt semver_model ''1.0.0-9007199254740992.2'' ''1.0.0-9007199254740993.1'' = Inr False"
  "gt semver_model ''1.0.0-9007199254740992.2'' ''1.0.0-9007199254740993.1'' = Inr False"
  "lt semver_model ''1.0.0-9007199254740992.1'' ''1.0.0-9007199254740992.2'' = Inr True"
  "gt semver_model ''1.0.0-9007199254740992.1'' ''1.0.0-9007199254740992.2'' = Inr False"
  "lt semver_model ''1.0.0-9007199254740992.2'' ''1.0.0-9007199254740992.1'' = Inr False"
  "gt semver_model ''1.0.0-9007199254740992.2'' ''1.0.0-9007199254740992.1'' = Inr True"
  by (simp_all add: sem_defs to_double_examples)

lemma big_identifier_older_evals:
  "isOlderVersion semver_model ''1.0.0-9007199254740992.1'' ''^0.9.0'' = Inr False"
  "isOlderVersion semver_model ''1.0.0-9007199254740993.1'' ''^0.9.0'' = Inr False"
  "isOlderVersion semver_model ''1.0.0-9007199254740992.2'' ''^0.9.0'' = Inr False"
  by (simp_all add: isOlderVersion_def sem_defs)

theorem applyTagFilterRules_unsorted_counterexample:
  "applyTagFilterRules semver_model formatTagNameRegex_exec
     [\<lparr>name = ''cc'', version = ''1.0.0-9007199254740992.1''\<rparr>,
      \<lparr>name = ''bb'', version = ''1.0.0-9007199254740993.1''\<rparr>,
      \<lparr>name = ''aa'', version = ''1.0.0-9007199254740992.2''\<rparr>]
     ''^0.9.0'' (Some ''0.9.0'') ''0.9.0'' False
   = Inr [\<lparr>name = ''cc'', version = ''1.0.0-9007199254740992.1''\<rparr>,
          \<lparr>name = ''bb'', version = ''1.0.0-9007199254740993.1''\<rparr>,
          \<lparr>name = ''aa'', version = ''1.0.0-9007199254740992.2''\<rparr>] \<and>
   \<not> sorted_by_recent_version semver_model
     [\<lparr>name = ''cc'', version = ''1.0.0-9007199254740992.1''\<rparr>,
      \<lparr>name = ''bb'', version = ''1.0.0-9007199254740993.1''\<rparr>,
      \<lparr>name = ''aa'', version = ''1.0.0-9007199254740992.2''\<rparr>] \<and>
   lt semver_model ''1.0.0-9007199254740992.1'' ''1.0.0-9007199254740992.2'' = Inr True \<and>
   \<not> may_precede semver_model
       \<lparr>name = ''bb'', version = ''1.0.0-9007199254740993.1''\<rparr>
       \<lparr>name = ''cc'', version = ''1.0.0-9007199254740992.1''\<rparr> \<and>
   \<not> may_precede semver_model
       \<lparr>name = ''aa'', version = ''1.0.0-9007199254740992.2''\<rparr>
       \<lparr>name = ''bb'', version = ''1.0.0-9007199254740993.1''\<rparr> \<and>
   \<not> may_precede semver_model
       \<lparr>name = ''cc'', version = ''1.0.0-9007199254740992.1''\<rparr>
       \<lparr>name = ''aa'', version = ''1.0.0-9007199254740992.2''\<rparr>"
proof -
  have run: "applyTagFilterRules semver_model formatTagNameRegex_exec
     [\<lparr>name = ''cc'', version = ''1.0.0-9007199254740992.1''\<rparr>,
      \<lparr>name = ''bb'', version = ''1.0.0-9007199254740993.1''\<rparr>,
      \<lparr>name = ''aa'', version = ''1.0.0-9007199254740992.2''\<rparr>]
     ''^0.9.0'' (Some ''0.9.0'') ''0.9.0'' False
   = Inr [\<lparr>name = ''cc'', version = ''1.0.0-9007199254740992.1''\<rparr>,
          \<lparr>name = ''bb'', version = ''1.0.0-9007199254740993.1''\<rparr>,
          \<lparr>name = ''aa'', version = ''1.0.0-9007199254740992.2''\<rparr>]"
    by (simp add: applyTagFilterRules_def removeOlderVersions_def older_evals
        big_identifier_older_evals removeExactVersions_def removeAmbiguousTagNames_def
        reduceTagsByUniqueNames_def removeTagsWithName_def sortTagsByRecentVersion_def
        sortDescending_def formatTagNameRegex_exec_def toLowerCase_def lower_char_def
        is_alpha_def big_identifier_evals)
  have cyc: "\<not> may_precede semver_model
       \<lparr>name = ''bb'', version = ''1.0.0-9007199254740993.1''\<rparr>
       \<lparr>name = ''cc'', version = ''1.0.0-9007199254740992.1''\<rparr>"
    "\<not> may_precede semver_model
       \<lparr>name = ''aa'', version = ''1.0.0-9007199254740992.2''\<rparr>
       \<lparr>name = ''bb'', version = ''1.0.0-9007199254740993.1''\<rparr>"
    "\<not> may_precede semver_model
       \<lparr>name = ''cc'', version = ''1.0.0-9007199254740992.1''\<rparr>
       \<lparr>name = ''aa'', version = ''1.0.0-9007199254740992.2''\<rparr>"
    by (simp_all add: may_precede_def big_identifier_evals)
  have "\<not> sorted_by_recent_version semver_model
     [\<lparr>name = ''cc'', version = ''1.0.0-9007199254740992.1''\<rparr>,
      \<lparr>name = ''bb'', version = ''1.0.0-9007199254740993.1''\<rparr>,
      \<lparr>name = ''aa'', version = ''1.0.0-9007199254740992.2''\<rparr>]"
    using cyc(3) by (simp add: sorted_by_recent_version_def)
  with run cyc big_identifier_evals(9) show ?thesis by blast
qed

section \<open>The satisfying version and the comparison with a range\<close>






text \<open>
  Claim C10. Given that \<^verbatim>\<open>semver.maxSatisfying\<close> returns \<^verbatim>\<open>null\<close> or a version of the list
  it is given, \<^verbatim>\<open>deduceMaxSatisfyingFromSemverList\<close> returns \<^verbatim>\<open>null\<close>, the requested
  version or an element of its list; and the \<^verbatim>\<open>maxSatisfyingVersion\<close> of the map built by
  \<^verbatim>\<open>buildMapFromVersionList\<close> is \<^verbatim>\<open>null\<close>, the requested version or one of the raw
  versions that \<^verbatim>\<open>validRange\<close> accepted.
\<close>

theorem maxSatisfyingVersion_origin:
  assumes "maxSatisfying_selects sv"
  shows "(\<exists>m. deduceMaxSatisfyingFromSemverList sv semverList requestedVersion = Inr m \<and>
            (m = None \<or> m = Some requestedVersion \<or> (\<exists>v. m = Some v \<and> v \<in> set semverList))) \<and>
         (\<exists>vm. buildMapFromVersionList sv rx versions requestedVersion = Inr vm \<and>
            (maxSatisfyingVersion vm = None \<or>
             maxSatisfyingVersion vm = Some requestedVersion \<or>
             (\<exists>v. maxSatisfyingVersion vm = Some v \<and> v \<in> set versions \<and> validRange sv v)))"
proof -
  have sel: "\<And>l r v. maxSatisfying sv l r = Inr (Some v) \<Longrightarrow> v \<in> set l"
    using assms unfolding maxSatisfying_selects_def by blast
  have d: "\<exists>m. deduceMaxSatisfyingFromSemverList sv l requestedVersion = Inr m \<and>
            (m = None \<or> m = Some requestedVersion \<or> (\<exists>v. m = Some v \<and> v \<in> set l))" for l
  proof (cases "maxSatisfying sv l requestedVersion")
    case (Inl e)
    then show ?thesis by (simp add: deduceMaxSatisfyingFromSemverList_def)
  next
    case (Inr x)
    then show ?thesis
      using sel [of l requestedVersion]
      by (cases x) (simp_all add: deduceMaxSatisfyingFromSemverList_def)
  qed
  from d [of "pluckSemverVersions sv versions"] obtain m where
    m: "deduceMaxSatisfyingFromSemverList sv (pluckSemverVersions sv versions) requestedVersion = Inr m"
    and mm: "m = None \<or> m = Some requestedVersion \<or>
        (\<exists>v. m = Some v \<and> v \<in> set (pluckSemverVersions sv versions))"
    by blast
  from mm have "m = None \<or> m = Some requestedVersion \<or>
        (\<exists>v. m = Some v \<and> v \<in> set versions \<and> validRange sv v)"
    by (auto simp: pluckSemverVersions_filter)
  with m have "\<exists>vm. buildMapFromVersionList sv rx versions requestedVersion = Inr vm \<and>
            (maxSatisfyingVersion vm = None \<or>
             maxSatisfyingVersion vm = Some requestedVersion \<or>
             (\<exists>v. maxSatisfyingVersion vm = Some v \<and> v \<in> set versions \<and> validRange sv v))"
    by (simp add: buildMapFromVersionList_def Let_def)
  with d [of semverList] show ?thesis by blast
qed

lemma maxSatisfying_loop_selects:
  "maxSatisfying_loop cs vs acc = Inr (Some v) \<Longrightarrow>
   v \<in> set vs \<or> (\<exists>x. acc = Some (v, x))"
proof (induction vs arbitrary: acc)
  case Nil
  then show ?case by (cases acc) auto
next
  case (Cons w ws)
  show ?case
  proof (cases "Range_test cs (Some w)")
    case (Inl e)
    with Cons.prems show ?thesis by simp
  next
    case (Inr b)
    show ?thesis
    proof (cases b)
      case False
      with Inr Cons.prems have "maxSatisfying_loop cs ws acc = Inr (Some v)" by simp
      from Cons.IH [OF this] show ?thesis by auto
    next
      case True
      show ?thesis
      proof (cases "parse_SemVer w")
        case None
        with Inr True Cons.prems show ?thesis by simp
      next
        case (Some x)
        show ?thesis
        proof (cases "acc = None \<or> (\<exists>m mx. acc = Some (m, mx) \<and> compare mx x = - 1)")
          case True
          with Inr \<open>b\<close> Some Cons.prems
          have "maxSatisfying_loop cs ws (Some (w, x)) = Inr (Some v)" by auto
          from Cons.IH [OF this] show ?thesis by auto
        next
          case False
          with Inr \<open>b\<close> Some Cons.prems
          have "maxSatisfying_loop cs ws acc = Inr (Some v)" by (cases acc) auto
          from Cons.IH [OF this] show ?thesis by auto
        qed
      qed
    qed
  qed
qed

lemma semver_model_selects: "maxSatisfying_selects semver_model"
  unfolding maxSatisfying_selects_def
proof (intro allI impI)
  fix l r v
  assume a: "maxSatisfying semver_model l r = Inr (Some v)"
  then obtain cs where "maxSatisfying_loop cs l None = Inr (Some v)"
    by (cases "parse_Range r") (simp_all add: model_fields semver_maxSatisfying_def)
  from maxSatisfying_loop_selects [OF this] show "v \<in> set l" by simp
qed

theorem maxSatisfyingVersion_origin_witness:
  "maxSatisfying_selects semver_model \<and>
   deduceMaxSatisfyingFromSemverList semver_model [''1.0.0'', ''1.1.0'', ''2.0.0''] ''^1.0.0''
     = Inr (Some ''1.1.0'') \<and>
   (\<exists>vm. buildMapFromVersionList semver_model formatTagNameRegex_exec
            [''1.0.0'', ''not a version'', ''1.1.0'', ''2.0.0''] ''^1.0.0'' = Inr vm \<and>
         maxSatisfyingVersion vm = Some ''1.1.0'')"
proof -
  have e1: "deduceMaxSatisfyingFromSemverList semver_model [''1.0.0'', ''1.1.0'', ''2.0.0''] ''^1.0.0''
     = Inr (Some ''1.1.0'')"
    by (simp add: deduceMaxSatisfyingFromSemverList_def sem_defs)
  have e2: "buildMapFromVersionList semver_model formatTagNameRegex_exec
            [''1.0.0'', ''not a version'', ''1.1.0'', ''2.0.0''] ''^1.0.0''
     = Inr \<lparr>releases = [''1.0.0'', ''1.1.0'', ''2.0.0''], taggedVersions = [],
             maxSatisfyingVersion = Some ''1.1.0''\<rparr>"
    by (simp add: src_defs sem_defs)
  from maxSatisfyingVersion_origin [OF semver_model_selects,
      of "[''1.0.0'', ''1.1.0'', ''2.0.0'']" "''^1.0.0''" formatTagNameRegex_exec
         "[''1.0.0'', ''not a version'', ''1.1.0'', ''2.0.0'']"]
    semver_model_selects e1 e2
  show ?thesis by simp
qed

text \<open>
  Claim C3, amended. \<^verbatim>\<open>isOlderVersion\<close> returns true when the version is older than the
  constraint and false otherwise, whenever the one call of \<^verbatim>\<open>semver.ltr\<close> it makes
  returns: its answer is that of \<^verbatim>\<open>semver.ltr\<close> on the version when the requested version
  is a prerelease or the version is none, and that of \<^verbatim>\<open>semver.ltr\<close> on the version
  without its prerelease suffix, or-ed with "the requested version contains the stripped
  version", when the correction applies. It catches nothing: it raises exactly when that
  call raises, with the same exception.
\<close>

theorem isOlderVersion_raises_with_ltr:
  "(prerelease sv r \<noteq> None \<or> prerelease sv v = None \<longrightarrow>
      isOlderVersion sv v r = ltr sv v r) \<and>
   (\<forall>cs. prerelease sv r = None \<and> prerelease sv v = Some cs \<longrightarrow>
      isOlderVersion sv v r =
        (case ltr sv (str_replace v (''-'' @ join ''.'' cs) []) r of
           Inl e \<Rightarrow> Inl e
         | Inr b \<Rightarrow> Inr (b \<or> str_includes r (str_replace v (''-'' @ join ''.'' cs) [])))) \<and>
   (\<forall>e. isOlderVersion sv v r = Inl e \<longleftrightarrow> ltr sv (testVersion_of sv v r) r = Inl e) \<and>
   (\<forall>b. ltr sv (testVersion_of sv v r) r = Inr b \<longrightarrow>
      isOlderVersion sv v r =
        Inr (b \<or> (prerelease sv r = None \<and> prerelease sv v \<noteq> None \<and>
                  str_includes r (testVersion_of sv v r))))"
proof (intro conjI allI impI)
  assume "prerelease sv r \<noteq> None \<or> prerelease sv v = None"
  then show "isOlderVersion sv v r = ltr sv v r"
    by (cases "prerelease sv r"; cases "prerelease sv v") (auto simp: isOlderVersion_def)
next
  fix cs assume "prerelease sv r = None \<and> prerelease sv v = Some cs"
  then show "isOlderVersion sv v r =
        (case ltr sv (str_replace v (''-'' @ join ''.'' cs) []) r of
           Inl e \<Rightarrow> Inl e
         | Inr b \<Rightarrow> Inr (b \<or> str_includes r (str_replace v (''-'' @ join ''.'' cs) [])))"
    by (auto simp: isOlderVersion_def Let_def split: sum.splits)
next
  fix e
  show "isOlderVersion sv v r = Inl e \<longleftrightarrow> ltr sv (testVersion_of sv v r) r = Inl e"
    by (cases "prerelease sv r"; cases "prerelease sv v";
        cases "ltr sv (testVersion_of sv v r) r")
       (simp_all add: isOlderVersion_def testVersion_of_def Let_def)
next
  fix b assume "ltr sv (testVersion_of sv v r) r = Inr b"
  then show "isOlderVersion sv v r =
        Inr (b \<or> (prerelease sv r = None \<and> prerelease sv v \<noteq> None \<and>
                  str_includes r (testVersion_of sv v r)))"
    by (cases "prerelease sv r"; cases "prerelease sv v")
       (simp_all add: isOlderVersion_def testVersion_of_def Let_def)
qed

text \<open>
  The claim as stated fails: \<^verbatim>\<open>foo\<close> is no version, \<^verbatim>\<open>semver.ltr\<close> throws a
  \<^verbatim>\<open>TypeError\<close> for it, and so does \<^verbatim>\<open>isOlderVersion\<close>.
\<close>

theorem isOlderVersion_raises_counterexample:
  "isOlderVersion semver_model ''foo'' ''1.0.0'' = Inl TypeError"
  by (simp add: isOlderVersion_def sem_defs)

theorem isOlderVersion_raises_with_ltr_witness:
  "prerelease semver_model ''1.1.0'' = None \<and>
   prerelease semver_model ''1.0.0'' = None \<and>
   ltr semver_model ''1.0.0'' ''1.1.0'' = Inr True \<and>
   isOlderVersion semver_model ''1.0.0'' ''1.1.0'' = Inr True \<and>
   ltr semver_model ''2.0.0'' ''1.1.0'' = Inr False \<and>
   isOlderVersion semver_model ''2.0.0'' ''1.1.0'' = Inr False \<and>
   prerelease semver_model ''1.0.0-beta.1'' = Some [''beta'', ''1''] \<and>
   testVersion_of semver_model ''1.0.0-beta.1'' ''1.1.0'' = ''1.0.0'' \<and>
   isOlderVersion semver_model ''1.0.0-beta.1'' ''1.1.0'' = Inr True \<and>
   ltr semver_model (testVersion_of semver_model ''foo'' ''1.1.0'') ''1.1.0'' = Inl TypeError \<and>
   isOlderVersion semver_model ''foo'' ''1.1.0'' = Inl TypeError"
proof -
  have p: "prerelease semver_model ''1.1.0'' = None"
    "prerelease semver_model ''1.0.0'' = None"
    "prerelease semver_model ''2.0.0'' = None"
    "prerelease semver_model ''1.0.0-beta.1'' = Some [''beta'', ''1'']"
    by (simp_all add: sem_defs)
  have l: "ltr semver_model ''1.0.0'' ''1.1.0'' = Inr True"
    "ltr semver_model ''2.0.0'' ''1.1.0'' = Inr False"
    by (simp_all add: sem_defs)
  have t: "testVersion_of semver_model ''1.0.0-beta.1'' ''1.1.0'' = ''1.0.0''"
    by (simp add: testVersion_of_def p)
  have b: "ltr semver_model (testVersion_of semver_model ''foo'' ''1.1.0'') ''1.1.0'' = Inl TypeError"
    by (simp add: testVersion_of_def sem_defs)
  from isOlderVersion_raises_with_ltr [where sv = semver_model and r = "''1.1.0''" and v = "''1.0.0''"] p l
  have a1: "isOlderVersion semver_model ''1.0.0'' ''1.1.0'' = Inr True" by simp
  from isOlderVersion_raises_with_ltr [where sv = semver_model and r = "''1.1.0''" and v = "''2.0.0''"] p l
  have a2: "isOlderVersion semver_model ''2.0.0'' ''1.1.0'' = Inr False" by simp
  from isOlderVersion_raises_with_ltr [where sv = semver_model and r = "''1.1.0''" and v = "''1.0.0-beta.1''"] p l t
  have a3: "isOlderVersion semver_model ''1.0.0-beta.1'' ''1.1.0'' = Inr True" by simp
  from isOlderVersion_raises_with_ltr [where sv = semver_model and r = "''1.1.0''" and v = "''foo''"] b
  have a4: "isOlderVersion semver_model ''foo'' ''1.1.0'' = Inl TypeError" by blast
  from p l t b a1 a2 a3 a4 show ?thesis by simp
qed

text \<open>
  Claim C4. For a requested version \<open>r\<close> that is no prerelease and a version \<open>v\<close> with
  prerelease components \<open>cs\<close>, \<^verbatim>\<open>isOlderVersion\<close> removes the first occurrence of the
  suffix \<^verbatim>\<open>'-' + cs.join('.')\<close> from \<open>v\<close> and, when \<^verbatim>\<open>semver.ltr\<close> returns \<open>b\<close> for the
  stripped version, returns \<open>b\<close> or-ed with "\<open>r\<close> contains the stripped version as a
  substring" (an exception of \<^verbatim>\<open>semver.ltr\<close> is passed on). When \<open>r\<close> is a prerelease,
  the result is that of \<^verbatim>\<open>semver.ltr\<close> on \<open>v\<close> unmodified.
\<close>

theorem isOlderVersion_prerelease_correction:
  "(prerelease sv r = None \<longrightarrow> prerelease sv v = Some cs \<longrightarrow>
      isOlderVersion sv v r =
        (case ltr sv (str_replace v (''-'' @ join ''.'' cs) []) r of
           Inl e \<Rightarrow> Inl e
         | Inr b \<Rightarrow> Inr (b \<or> str_includes r (str_replace v (''-'' @ join ''.'' cs) [])))) \<and>
   (prerelease sv r \<noteq> None \<longrightarrow> isOlderVersion sv v r = ltr sv v r)"
  by (auto simp: isOlderVersion_def Let_def split: sum.splits)

theorem isOlderVersion_prerelease_correction_witness:
  "prerelease semver_model ''^1.0.0'' = None \<and>
   prerelease semver_model ''1.0.0-beta.1'' = Some [''beta'', ''1''] \<and>
   str_replace ''1.0.0-beta.1'' (''-'' @ join ''.'' [''beta'', ''1'']) [] = ''1.0.0'' \<and>
   ltr semver_model ''1.0.0'' ''^1.0.0'' = Inr False \<and>
   str_includes ''^1.0.0'' ''1.0.0'' \<and>
   isOlderVersion semver_model ''1.0.0-beta.1'' ''^1.0.0'' = Inr True \<and>
   prerelease semver_model ''1.0.0-beta.2'' = Some [''beta'', ''2''] \<and>
   isOlderVersion semver_model ''1.0.0-beta.1'' ''1.0.0-beta.2'' = Inr True \<and>
   ltr semver_model ''1.0.0-beta.1'' ''1.0.0-beta.2'' = Inr True"
proof -
  have p: "prerelease semver_model ''^1.0.0'' = None"
    "prerelease semver_model ''1.0.0-beta.1'' = Some [''beta'', ''1'']"
    "prerelease semver_model ''1.0.0-beta.2'' = Some [''beta'', ''2'']"
    by (simp_all add: sem_defs)
  have s: "str_replace ''1.0.0-beta.1'' (''-'' @ join ''.'' [''beta'', ''1'']) [] = ''1.0.0''"
    "str_includes ''^1.0.0'' ''1.0.0''"
    by simp_all
  have l: "ltr semver_model ''1.0.0'' ''^1.0.0'' = Inr False"
    "ltr semver_model ''1.0.0-beta.1'' ''1.0.0-beta.2'' = Inr True"
    by (simp_all add: sem_defs)
  from isOlderVersion_prerelease_correction
      [of semver_model "''^1.0.0''" "''1.0.0-beta.1''" "[''beta'', ''1'']"] p s l
  have a: "isOlderVersion semver_model ''1.0.0-beta.1'' ''^1.0.0'' = Inr True" by simp
  from isOlderVersion_prerelease_correction
      [of semver_model "''1.0.0-beta.2''" "''1.0.0-beta.1''" "[]"] p l
  have b: "isOlderVersion semver_model ''1.0.0-beta.1'' ''1.0.0-beta.2'' = Inr True" by simp
  from p s l a b show ?thesis by simp
qed

section \<open>The shape of the output of the tag resolver\<close>

lemma applyTagFilterRules_no_latest:
  assumes "applyTagFilterRules sv rx tags rv sat latest notFound = Inr out"
  shows "''latest'' \<notin> name ` set out"
proof -
  from applyTagFilterRules_sortD [OF assms] obtain f5 where
    srt: "array_sort (sortTagsByRecentVersion sv)
            (removeTagsWithName (reduceTagsByUniqueNames f5) ''latest'') = Inr out"
    by blast
  show ?thesis
    unfolding array_sort_set [OF srt] by (auto simp: removeTagsWithName_def)
qed

lemma buildTagsFromVersionMap_InrD:
  assumes "buildTagsFromVersionMap sv rx vm rv = Inr out"
  shows "\<exists>latest older satLatest isFixed newer others.
    latestVersionOf vm = Inr latest \<and>
    satisfies sv (maxSatisfyingVersion vm) latest = Inr satLatest \<and>
    applyTagFilterRules sv rx (taggedVersions vm) rv (maxSatisfyingVersion vm) latest
      (\<not> truthy (maxSatisfyingVersion vm)) = Inr others \<and>
    out = SatisfiesEntry
            \<lparr>name = ''satisfies'', version = maxSatisfyingVersion vm,
             isNewerThanLatest = newer,
             isLatestVersion = (satLatest \<and> replace_caret_tilde rv = latest),
             satisfiesLatest = satLatest, isInvalid = (\<not> validRange sv rv),
             versionMatchNotFound = (\<not> truthy (maxSatisfyingVersion vm)),
             isFixedVersion_flag = isFixed, isPrimaryTag = True\<rparr>
          # (if satLatest \<and> replace_caret_tilde rv = latest then []
             else [LatestEntry \<lparr>name = ''latest'', version = latest,
                                isOlderThanRequested = older\<rparr>])
          @ map TagEntry others"
proof -
  let ?nf = "\<not> truthy (maxSatisfyingVersion vm)"
  let ?m = "maxSatisfyingVersion vm"
  note d = buildTagsFromVersionMap_def Let_def
  obtain latest where 1: "latestVersionOf vm = Inr latest"
    using assms unfolding d by (cases "latestVersionOf vm") simp_all
  obtain older where 2: "olderThanRequested sv ?nf (validRange sv rv) latest rv = Inr older"
    using assms 1 unfolding d
    by (cases "olderThanRequested sv ?nf (validRange sv rv) latest rv") simp_all
  obtain satLatest where 3: "satisfies sv ?m latest = Inr satLatest"
    using assms 1 2 unfolding d by (cases "satisfies sv ?m latest") simp_all
  let ?fx = "if validRange sv rv
             then (case isFixedVersion sv rv of Inl e \<Rightarrow> Inl e | Inr b \<Rightarrow> Inr (JBool b))
             else Inr JNull"
  obtain isFixed where 4: "?fx = Inr isFixed"
    using assms 1 2 3 unfolding d by (cases ?fx) simp_all
  obtain newer where 5: "newerThanLatest sv satLatest ?m latest = Inr newer"
    using assms 1 2 3 4 unfolding d
    by (cases "newerThanLatest sv satLatest ?m latest") simp_all
  obtain others where 6: "applyTagFilterRules sv rx (taggedVersions vm) rv ?m latest ?nf = Inr others"
    using assms 1 2 3 4 5 unfolding d
    by (cases "applyTagFilterRules sv rx (taggedVersions vm) rv ?m latest ?nf") simp_all
  from assms 1 2 3 4 5 6 show ?thesis unfolding d by auto
qed

text \<open>
  Claim C7, amended. Whenever \<^verbatim>\<open>buildTagsFromVersionMap\<close> returns, its output is
  non-empty, the first element is the entry named \<^verbatim>\<open>satisfies\<close>, and the second element
  is an entry named \<^verbatim>\<open>latest\<close> exactly when the \<^verbatim>\<open>isLatestVersion\<close> flag of the first is
  false; that second element is then the latest entry, carrying the latest version of the
  map. The function does not return for every map: it raises a \<^verbatim>\<open>TypeError\<close> when the
  map has no first release (or an empty one) and no tagged version.
\<close>

theorem buildTagsFromVersionMap_shape:
  "(latestVersionOf vm = Inl TypeError \<longrightarrow>
      buildTagsFromVersionMap sv rx vm rv = Inl TypeError) \<and>
   (\<forall>out. buildTagsFromVersionMap sv rx vm rv = Inr out \<longrightarrow>
      (\<exists>s rest. out = SatisfiesEntry s # rest \<and> name s = ''satisfies'' \<and>
         ((rest \<noteq> [] \<and> entry_name (hd rest) = ''latest'') \<longleftrightarrow> \<not> isLatestVersion s) \<and>
         (\<not> isLatestVersion s \<longrightarrow>
            (\<exists>l. hd rest = LatestEntry l \<and> name l = ''latest'' \<and>
                 latestVersionOf vm = Inr (version l)))))"
proof (intro conjI allI impI)
  assume "latestVersionOf vm = Inl TypeError"
  then show "buildTagsFromVersionMap sv rx vm rv = Inl TypeError"
    by (simp add: buildTagsFromVersionMap_def Let_def)
next
  fix out
  assume "buildTagsFromVersionMap sv rx vm rv = Inr out"
  from buildTagsFromVersionMap_InrD [OF this]
  obtain latest older satLatest isFixed newer others where
    l: "latestVersionOf vm = Inr latest"
    and o: "applyTagFilterRules sv rx (taggedVersions vm) rv (maxSatisfyingVersion vm) latest
      (\<not> truthy (maxSatisfyingVersion vm)) = Inr others"
    and out: "out = SatisfiesEntry
            \<lparr>name = ''satisfies'', version = maxSatisfyingVersion vm,
             isNewerThanLatest = newer,
             isLatestVersion = (satLatest \<and> replace_caret_tilde rv = latest),
             satisfiesLatest = satLatest, isInvalid = (\<not> validRange sv rv),
             versionMatchNotFound = (\<not> truthy (maxSatisfyingVersion vm)),
             isFixedVersion_flag = isFixed, isPrimaryTag = True\<rparr>
          # (if satLatest \<and> replace_caret_tilde rv = latest then []
             else [LatestEntry \<lparr>name = ''latest'', version = latest,
                                isOlderThanRequested = older\<rparr>])
          @ map TagEntry others"
    by blast
  have nl: "''latest'' \<notin> name ` set others" by (rule applyTagFilterRules_no_latest [OF o])
  have hd_others: "others \<noteq> [] \<Longrightarrow> entry_name (hd (map TagEntry others)) \<noteq> ''latest''"
    using nl by (cases others) auto
  show "\<exists>s rest. out = SatisfiesEntry s # rest \<and> name s = ''satisfies'' \<and>
         ((rest \<noteq> [] \<and> entry_name (hd rest) = ''latest'') \<longleftrightarrow> \<not> isLatestVersion s) \<and>
         (\<not> isLatestVersion s \<longrightarrow>
            (\<exists>l. hd rest = LatestEntry l \<and> name l = ''latest'' \<and>
                 latestVersionOf vm = Inr (version l)))"
  proof (cases "satLatest \<and> replace_caret_tilde rv = latest")
    case True
    with out hd_others l show ?thesis by (cases others) auto
  next
    case False
    with out l show ?thesis by auto
  qed
qed

text \<open>
  The claim as stated fails on the map of a package without versions, which
  \<^verbatim>\<open>buildMapFromVersionList\<close> builds from the empty list: there is no output.
\<close>

theorem buildTagsFromVersionMap_shape_counterexample:
  "buildMapFromVersionList semver_model formatTagNameRegex_exec [] ''1.0.0''
     = Inr \<lparr>releases = [], taggedVersions = [], maxSatisfyingVersion = None\<rparr> \<and>
   buildTagsFromVersionMap semver_model formatTagNameRegex_exec
     \<lparr>releases = [], taggedVersions = [], maxSatisfyingVersion = None\<rparr> ''1.0.0''
     = Inl TypeError"
  by (simp add: src_defs sem_defs)

lemma newest_first_example:
  "buildTagsFromVersionMap semver_model formatTagNameRegex_exec
     \<lparr>releases = [''2.0.0'', ''1.1.0'', ''1.0.0''], taggedVersions = [],
      maxSatisfyingVersion = Some ''1.1.0''\<rparr> ''1.1.0''
   = Inr [SatisfiesEntry
            \<lparr>name = ''satisfies'', version = Some ''1.1.0'',
             isNewerThanLatest = JBool False, isLatestVersion = False,
             satisfiesLatest = False, isInvalid = False,
             versionMatchNotFound = False, isFixedVersion_flag = JBool True,
             isPrimaryTag = True\<rparr>,
          LatestEntry
            \<lparr>name = ''latest'', version = ''2.0.0'', isOlderThanRequested = JBool False\<rparr>]"
  by (simp add: src_defs sem_defs)

lemma matches_latest_example:
  "buildTagsFromVersionMap semver_model formatTagNameRegex_exec
     \<lparr>releases = [''2.0.0'', ''1.1.0'', ''1.0.0''], taggedVersions = [],
      maxSatisfyingVersion = Some ''2.0.0''\<rparr> ''^2.0.0''
   = Inr [SatisfiesEntry
            \<lparr>name = ''satisfies'', version = Some ''2.0.0'',
             isNewerThanLatest = JBool False, isLatestVersion = True,
             satisfiesLatest = True, isInvalid = False,
             versionMatchNotFound = False, isFixedVersion_flag = JBool False,
             isPrimaryTag = True\<rparr>]"
  by (simp add: src_defs sem_defs)

theorem buildTagsFromVersionMap_shape_witness:
  "latestVersionOf \<lparr>releases = [], taggedVersions = [], maxSatisfyingVersion = None\<rparr>
     = Inl TypeError \<and>
   buildTagsFromVersionMap semver_model formatTagNameRegex_exec
     \<lparr>releases = [], taggedVersions = [], maxSatisfyingVersion = None\<rparr> ''1.0.0''
     = Inl TypeError \<and>
   (\<exists>s rest.
      buildTagsFromVersionMap semver_model formatTagNameRegex_exec
        \<lparr>releases = [''2.0.0'', ''1.1.0'', ''1.0.0''], taggedVersions = [],
         maxSatisfyingVersion = Some ''1.1.0''\<rparr> ''1.1.0'' = Inr (SatisfiesEntry s # rest) \<and>
      \<not> isLatestVersion s \<and> rest \<noteq> [] \<and> entry_name (hd rest) = ''latest'') \<and>
   (\<exists>s rest.
      buildTagsFromVersionMap semver_model formatTagNameRegex_exec
        \<lparr>releases = [''2.0.0'', ''1.1.0'', ''1.0.0''], taggedVersions = [],
         maxSatisfyingVersion = Some ''2.0.0''\<rparr> ''^2.0.0'' = Inr (SatisfiesEntry s # rest) \<and>
      isLatestVersion s \<and> rest = [])"
proof -
  let ?e = "\<lparr>releases = [], taggedVersions = [], maxSatisfyingVersion = None\<rparr>"
  have l: "latestVersionOf ?e = Inl TypeError" by (simp add: latestVersionOf_def)
  from buildTagsFromVersionMap_shape [of ?e semver_model formatTagNameRegex_exec "''1.0.0''"] l
  have "buildTagsFromVersionMap semver_model formatTagNameRegex_exec ?e ''1.0.0'' = Inl TypeError"
    by blast
  with l newest_first_example matches_latest_example show ?thesis by simp
qed

text \<open>
  Claim C2, amended. Whenever the output of \<^verbatim>\<open>buildTagsFromVersionMap\<close> holds a latest
  entry after the satisfies entry, it is not the case that the satisfies entry's version
  satisfies the latest entry's version and the requested version, with its first caret or
  tilde removed, is the latest entry's version as text. The two entries can carry the
  same version.
\<close>

theorem latest_entry_not_matched:
  assumes "buildTagsFromVersionMap sv rx vm rv = Inr (SatisfiesEntry s # LatestEntry l # rest)"
  shows "\<not> isLatestVersion s \<and>
    \<not> (satisfies sv (version s) (version l) = Inr True \<and> replace_caret_tilde rv = version l)"
proof -
  from buildTagsFromVersionMap_InrD [OF assms]
  obtain latest older satLatest isFixed newer others where
    sat: "satisfies sv (maxSatisfyingVersion vm) latest = Inr satLatest"
    and out: "SatisfiesEntry s # LatestEntry l # rest = SatisfiesEntry
            \<lparr>name = ''satisfies'', version = maxSatisfyingVersion vm,
             isNewerThanLatest = newer,
             isLatestVersion = (satLatest \<and> replace_caret_tilde rv = latest),
             satisfiesLatest = satLatest, isInvalid = (\<not> validRange sv rv),
             versionMatchNotFound = (\<not> truthy (maxSatisfyingVersion vm)),
             isFixedVersion_flag = isFixed, isPrimaryTag = True\<rparr>
          # (if satLatest \<and> replace_caret_tilde rv = latest then []
             else [LatestEntry \<lparr>name = ''latest'', version = latest,
                                isOlderThanRequested = older\<rparr>])
          @ map TagEntry others"
    by blast
  show ?thesis
  proof (cases "satLatest \<and> replace_caret_tilde rv = latest")
    case True
    with out show ?thesis by (cases others) auto
  next
    case False
    with out sat show ?thesis by auto
  qed
qed

text \<open>
  The claim as stated fails: for the range \<^verbatim>\<open>^1.0.0\<close> and the single release \<^verbatim>\<open>1.5.0\<close>
  the latest entry is present and carries the version of the satisfies entry.
\<close>

theorem latest_entry_same_version_counterexample:
  "buildMapFromVersionList semver_model formatTagNameRegex_exec [''1.5.0''] ''^1.0.0''
     = Inr \<lparr>releases = [''1.5.0''], taggedVersions = [], maxSatisfyingVersion = Some ''1.5.0''\<rparr> \<and>
   buildTagsFromVersionMap semver_model formatTagNameRegex_exec
     \<lparr>releases = [''1.5.0''], taggedVersions = [], maxSatisfyingVersion = Some ''1.5.0''\<rparr>
     ''^1.0.0''
   = Inr [SatisfiesEntry
            \<lparr>name = ''satisfies'', version = Some ''1.5.0'',
             isNewerThanLatest = JBool False, isLatestVersion = False,
             satisfiesLatest = True, isInvalid = False,
             versionMatchNotFound = False, isFixedVersion_flag = JBool False,
             isPrimaryTag = True\<rparr>,
          LatestEntry
            \<lparr>name = ''latest'', version = ''1.5.0'', isOlderThanRequested = JBool False\<rparr>]"
  by (simp add: src_defs sem_defs)

theorem latest_entry_not_matched_witness:
  "buildTagsFromVersionMap semver_model formatTagNameRegex_exec
     \<lparr>releases = [''2.0.0'', ''1.1.0'', ''1.0.0''], taggedVersions = [],
      maxSatisfyingVersion = Some ''1.1.0''\<rparr> ''1.1.0''
   = Inr [SatisfiesEntry
            \<lparr>name = ''satisfies'', version = Some ''1.1.0'',
             isNewerThanLatest = JBool False, isLatestVersion = False,
             satisfiesLatest = False, isInvalid = False,
             versionMatchNotFound = False, isFixedVersion_flag = JBool True,
             isPrimaryTag = True\<rparr>,
          LatestEntry
            \<lparr>name = ''latest'', version = ''2.0.0'', isOlderThanRequested = JBool False\<rparr>] \<and>
   \<not> (satisfies semver_model (Some ''1.1.0'') ''2.0.0'' = Inr True \<and>
      replace_caret_tilde ''1.1.0'' = ''2.0.0'')"
  using latest_entry_not_matched [OF newest_first_example] newest_first_example
  by simp

section \<open>Scenario A\<close>

text \<open>
  Claim C1, amended. For the raw versions \<^verbatim>\<open>["1.0.0","1.1.0","2.0.0"]\<close> and the requested
  version \<^verbatim>\<open>1.1.0\<close>, \<^verbatim>\<open>buildMapFromVersionList\<close> yields the releases in input order and
  the satisfying version \<^verbatim>\<open>1.1.0\<close>, and \<^verbatim>\<open>buildTagsFromVersionMap\<close> yields exactly two
  entries: the satisfies entry with version \<^verbatim>\<open>1.1.0\<close>, \<^verbatim>\<open>isFixedVersion\<close> true and
  \<^verbatim>\<open>isLatestVersion\<close> false, and a latest entry with version \<^verbatim>\<open>1.0.0\<close>, the first release
  of the list, and \<^verbatim>\<open>isOlderThanRequested\<close> true. The latest entry of the specification
  (version \<^verbatim>\<open>2.0.0\<close>, not older) is the output for the same versions listed newest first.
\<close>

theorem scenario_A:
  "buildMapFromVersionList semver_model rx [''1.0.0'', ''1.1.0'', ''2.0.0''] ''1.1.0''
     = Inr \<lparr>releases = [''1.0.0'', ''1.1.0'', ''2.0.0''], taggedVersions = [],
             maxSatisfyingVersion = Some ''1.1.0''\<rparr> \<and>
   buildTagsFromVersionMap semver_model rx
     \<lparr>releases = [''1.0.0'', ''1.1.0'', ''2.0.0''], taggedVersions = [],
      maxSatisfyingVersion = Some ''1.1.0''\<rparr> ''1.1.0''
     = Inr [SatisfiesEntry
              \<lparr>name = ''satisfies'', version = Some ''1.1.0'',
               isNewerThanLatest = JBool True, isLatestVersion = False,
               satisfiesLatest = False, isInvalid = False,
               versionMatchNotFound = False, isFixedVersion_flag = JBool True,
               isPrimaryTag = True\<rparr>,
            LatestEntry
              \<lparr>name = ''latest'', version = ''1.0.0'', isOlderThanRequested = JBool True\<rparr>] \<and>
   buildMapFromVersionList semver_model rx [''2.0.0'', ''1.1.0'', ''1.0.0''] ''1.1.0''
     = Inr \<lparr>releases = [''2.0.0'', ''1.1.0'', ''1.0.0''], taggedVersions = [],
             maxSatisfyingVersion = Some ''1.1.0''\<rparr> \<and>
   buildTagsFromVersionMap semver_model rx
     \<lparr>releases = [''2.0.0'', ''1.1.0'', ''1.0.0''], taggedVersions = [],
      maxSatisfyingVersion = Some ''1.1.0''\<rparr> ''1.1.0''
     = Inr [SatisfiesEntry
              \<lparr>name = ''satisfies'', version = Some ''1.1.0'',
               isNewerThanLatest = JBool False, isLatestVersion = False,
               satisfiesLatest = False, isInvalid = False,
               versionMatchNotFound = False, isFixedVersion_flag = JBool True,
               isPrimaryTag = True\<rparr>,
            LatestEntry
              \<lparr>name = ''latest'', version = ''2.0.0'', isOlderThanRequested = JBool False\<rparr>]"
  by (simp add: src_defs sem_defs)

text \<open>
  The claim as stated fails: the versions of the two entries are not \<^verbatim>\<open>1.1.0\<close> and
  \<^verbatim>\<open>2.0.0\<close>, since \<^verbatim>\<open>releases[0]\<close> is \<^verbatim>\<open>1.0.0\<close>.
\<close>

theorem scenario_A_counterexample:
  "buildMapFromVersionList semver_model formatTagNameRegex_exec
     [''1.0.0'', ''1.1.0'', ''2.0.0''] ''1.1.0''
     = Inr \<lparr>releases = [''1.0.0'', ''1.1.0'', ''2.0.0''], taggedVersions = [],
             maxSatisfyingVersion = Some ''1.1.0''\<rparr> \<and>
   map entry_version
     (projr (buildTagsFromVersionMap semver_model formatTagNameRegex_exec
        \<lparr>releases = [''1.0.0'', ''1.1.0'', ''2.0.0''], taggedVersions = [],
         maxSatisfyingVersion = Some ''1.1.0''\<rparr> ''1.1.0''))
     \<noteq> [Some ''1.1.0'', Some ''2.0.0'']"
  by (simp add: src_defs sem_defs)

section \<open>The store: what each array operation writes\<close>

text \<open>
  Each array operation of the store leaves the arrays that exist alone and returns an
  array holding what the list-valued function computes.
\<close>

lemma preserves_refl: "preserves st st"
  by (simp add: preserves_def)

lemma preserves_trans: "preserves a b \<Longrightarrow> preserves b c \<Longrightarrow> preserves a c"
  by (auto simp: preserves_def)

lemma preserves_read: "preserves st st' \<Longrightarrow> a < fresh st \<Longrightarrow> arrays st' a = arrays st a"
  by (simp add: preserves_def)

lemma preserves_fresh: "preserves st st' \<Longrightarrow> a < fresh st \<Longrightarrow> a < fresh st'"
  by (simp add: preserves_def)

lemma new_array_spec:
  assumes "new_array xs st = (a, st')"
  shows "preserves st st' \<and> a = fresh st \<and> a < fresh st' \<and> arrays st' a = xs"
  using assms by (auto simp: new_array_def preserves_def)

lemma slice_st_spec:
  assumes "slice_st this st = (a, st')"
  shows "preserves st st' \<and> fresh st \<le> a \<and> a < fresh st' \<and> arrays st' a = arrays st this"
  using new_array_spec [of "arrays st this" st a st'] assms by (auto simp: slice_st_def)

lemma removeExactVersions_st_spec:
  assumes "removeExactVersions_st this v st = (a, st')"
  shows "preserves st st' \<and> fresh st \<le> a \<and> a < fresh st' \<and>
    arrays st' a = removeExactVersions (arrays st this) v"
  using new_array_spec [of "filter (\<lambda>t. Some (version t) \<noteq> v) (arrays st this)" st a st'] assms
  by (auto simp: removeExactVersions_st_def removeExactVersions_def)

lemma removeTagsWithName_st_spec:
  assumes "removeTagsWithName_st this n st = (a, st')"
  shows "preserves st st' \<and> fresh st \<le> a \<and> a < fresh st' \<and>
    arrays st' a = removeTagsWithName (arrays st this) n"
  using new_array_spec [of "filter (\<lambda>t. name t \<noteq> n) (arrays st this)" st a st'] assms
  by (auto simp: removeTagsWithName_st_def removeTagsWithName_def)

lemma removeOlderVersions_st_spec:
  assumes "removeOlderVersions_st sv this r st = (res, st')"
  shows "preserves st st' \<and>
    (case res of
       Inl e \<Rightarrow> removeOlderVersions sv (arrays st this) r = Inl e
     | Inr a \<Rightarrow> fresh st \<le> a \<and> a < fresh st' \<and>
         removeOlderVersions sv (arrays st this) r = Inr (arrays st' a))"
proof (cases "removeOlderVersions sv (arrays st this) r")
  case (Inl e)
  with assms show ?thesis
    by (auto simp: removeOlderVersions_st_def removeOlderVersions_def preserves_refl)
next
  case (Inr ys)
  obtain a st1 where n: "new_array ys st = (a, st1)" by (cases "new_array ys st")
  with Inr assms have "res = Inr a" "st' = st1"
    by (auto simp: removeOlderVersions_st_def removeOlderVersions_def)
  with new_array_spec [OF n] Inr show ?thesis by auto
qed

lemma push_fold_unique:
  "fresh (fold (\<lambda>current s.
                  if find (\<lambda>x. name x = name current) (arrays s r) = None
                  then push r current s else s) xs st) = fresh st \<and>
   (\<forall>b. b \<noteq> r \<longrightarrow> arrays (fold (\<lambda>current s.
                  if find (\<lambda>x. name x = name current) (arrays s r) = None
                  then push r current s else s) xs st) b = arrays st b) \<and>
   arrays (fold (\<lambda>current s.
                  if find (\<lambda>x. name x = name current) (arrays s r) = None
                  then push r current s else s) xs st) r =
     fold (\<lambda>current unique.
             if find (\<lambda>x. name x = name current) unique = None
             then unique @ [current] else unique) xs (arrays st r)"
proof (induction xs arbitrary: st)
  case Nil
  show ?case by simp
next
  case (Cons x xs)
  show ?case
  proof (cases "find (\<lambda>y. name y = name x) (arrays st r) = None")
    case True
    with Cons.IH [of "push r x st"] show ?thesis by (simp add: push_def)
  next
    case False
    then have "find (\<lambda>y. name y = name x) (arrays st r) \<noteq> None" .
    with Cons.IH [of st] show ?thesis by (simp del: find_None_iff not_None_eq)
  qed
qed

lemma push_fold_ambiguous:
  "fresh (fold (\<lambda>current s.
                  case rx (name current) of
                    None \<Rightarrow> push r \<lparr>name = name current, version = version current\<rparr> s
                  | Some m \<Rightarrow>
                      if length m > 1
                      then push r \<lparr>name = toLowerCase m, version = version current\<rparr> s
                      else s) xs st) = fresh st \<and>
   (\<forall>b. b \<noteq> r \<longrightarrow> arrays (fold (\<lambda>current s.
                  case rx (name current) of
                    None \<Rightarrow> push r \<lparr>name = name current, version = version current\<rparr> s
                  | Some m \<Rightarrow>
                      if length m > 1
                      then push r \<lparr>name = toLowerCase m, version = version current\<rparr> s
                      else s) xs st) b = arrays st b) \<and>
   arrays (fold (\<lambda>current s.
                  case rx (name current) of
                    None \<Rightarrow> push r \<lparr>name = name current, version = version current\<rparr> s
                  | Some m \<Rightarrow>
                      if length m > 1
                      then push r \<lparr>name = toLowerCase m, version = version current\<rparr> s
                      else s) xs st) r =
     fold (\<lambda>current results.
             case rx (name current) of
               None \<Rightarrow> results @ [\<lparr>name = name current, version = version current\<rparr>]
             | Some m \<Rightarrow>
                 if length m > 1
                 then results @ [\<lparr>name = toLowerCase m, version = version current\<rparr>]
                 else results) xs (arrays st r)"
proof (induction xs arbitrary: st)
  case Nil
  show ?case by simp
next
  case (Cons x xs)
  show ?case
  proof (cases "rx (name x)")
    case None
    with Cons.IH [of "push r \<lparr>name = name x, version = version x\<rparr> st"]
    show ?thesis by (simp add: push_def)
  next
    case (Some m)
    show ?thesis
    proof (cases "length m > 1")
      case True
      with Some Cons.IH [of "push r \<lparr>name = toLowerCase m, version = version x\<rparr> st"]
      show ?thesis by (simp add: push_def)
    next
      case False
      with Some Cons.IH [of st] show ?thesis by simp
    qed
  qed
qed

lemma reduceTagsByUniqueNames_st_spec:
  assumes "reduceTagsByUniqueNames_st this st = (a, st')" "this < fresh st"
  shows "preserves st st' \<and> fresh st \<le> a \<and> a < fresh st' \<and>
    arrays st' a = reduceTagsByUniqueNames (arrays st this)"
proof -
  obtain r st1 where n: "new_array [] st = (r, st1)" by (cases "new_array [] st")
  from new_array_spec [OF n] have p1: "preserves st st1" and r: "r = fresh st" "r < fresh st1"
    and e: "arrays st1 r = []" by auto
  let ?F = "\<lambda>current s.
                  if find (\<lambda>x. name x = name current) (arrays s r) = None
                  then push r current s else s"
  from assms(1) n have a: "a = r" and st': "st' = fold ?F (arrays st this) st1"
    by (auto simp: reduceTagsByUniqueNames_st_def)
  note f = push_fold_unique [where r = r and xs = "arrays st this" and st = st1]
  have "preserves st st'"
    unfolding preserves_def
  proof (intro conjI allI impI)
    show "fresh st \<le> fresh st'" unfolding st' using f r by simp
  next
    fix b assume b: "b < fresh st"
    with r have "b \<noteq> r" by simp
    with f have "arrays st' b = arrays st1 b" unfolding st' by blast
    with preserves_read [OF p1 b] show "arrays st' b = arrays st b" by simp
  qed
  moreover have "a < fresh st'" unfolding st' a using f r by simp
  moreover have "arrays st' a = reduceTagsByUniqueNames (arrays st this)"
    unfolding st' a reduceTagsByUniqueNames_def using f e by simp
  ultimately show ?thesis using a r by simp
qed

lemma removeAmbiguousTagNames_st_spec:
  assumes "removeAmbiguousTagNames_st rx this st = (a, st')" "this < fresh st"
  shows "preserves st st' \<and> fresh st \<le> a \<and> a < fresh st' \<and>
    arrays st' a = removeAmbiguousTagNames rx (arrays st this)"
proof -
  obtain r st1 where n: "new_array [] st = (r, st1)" by (cases "new_array [] st")
  from new_array_spec [OF n] have p1: "preserves st st1" and r: "r = fresh st" "r < fresh st1"
    and e: "arrays st1 r = []" by auto
  let ?F = "\<lambda>current s.
                  case rx (name current) of
                    None \<Rightarrow> push r \<lparr>name = name current, version = version current\<rparr> s
                  | Some m \<Rightarrow>
                      if length m > 1
                      then push r \<lparr>name = toLowerCase m, version = version current\<rparr> s
                      else s"
  from assms(1) n have a: "a = r" and st': "st' = fold ?F (arrays st this) st1"
    by (auto simp: removeAmbiguousTagNames_st_def)
  note f = push_fold_ambiguous [where rx = rx and r = r and xs = "arrays st this" and st = st1]
  have "preserves st st'"
    unfolding preserves_def
  proof (intro conjI allI impI)
    show "fresh st \<le> fresh st'" unfolding st' using f r by simp
  next
    fix b assume b: "b < fresh st"
    with r have "b \<noteq> r" by simp
    with f have "arrays st' b = arrays st1 b" unfolding st' by blast
    with preserves_read [OF p1 b] show "arrays st' b = arrays st b" by simp
  qed
  moreover have "a < fresh st'" unfolding st' a using f r by simp
  moreover have "arrays st' a = removeAmbiguousTagNames rx (arrays st this)"
    unfolding st' a removeAmbiguousTagNames_def using f e by simp
  ultimately show ?thesis using a r by simp
qed

lemma sort_st_spec:
  assumes "sort_st c a st = (res, st')"
  shows "fresh st' = fresh st \<and> (\<forall>b. b \<noteq> a \<longrightarrow> arrays st' b = arrays st b) \<and>
    (case res of
       Inl e \<Rightarrow> array_sort c (arrays st a) = Inl e
     | Inr r \<Rightarrow> r = a \<and> array_sort c (arrays st a) = Inr (arrays st' a))"
  using assms by (cases "array_sort c (arrays st a)") (auto simp: sort_st_def)

section \<open>The pipeline leaves its input array alone\<close>

lemma applyTagFilterRules_st_spec:
  assumes run: "applyTagFilterRules_st sv rx tags rv sat latest nf st = (res, st')"
    and alloc: "tags < fresh st"
  shows "preserves st st' \<and>
    (case res of
       Inl e \<Rightarrow> applyTagFilterRules sv rx (arrays st tags) rv sat latest nf = Inl e
     | Inr r \<Rightarrow> fresh st \<le> r \<and>
         applyTagFilterRules sv rx (arrays st tags) rv sat latest nf = Inr (arrays st' r))"
proof -
  obtain f0 st0 where s0: "slice_st tags st = (f0, st0)" by (cases "slice_st tags st")
  from slice_st_spec [OF s0] have p0: "preserves st st0" and f0: "fresh st \<le> f0" "f0 < fresh st0"
    and a0: "arrays st0 f0 = arrays st tags" by simp_all
  let ?step1 = "if validRange sv rv then removeOlderVersions_st sv f0 rv st0 else (Inr f0, st0)"
  let ?pure1 = "if validRange sv rv then removeOlderVersions sv (arrays st tags) rv
                else Inr (arrays st tags)"
  obtain r1 st1 where s1: "?step1 = (r1, st1)" by (cases ?step1)
  have p1: "preserves st0 st1 \<and>
    (case r1 of Inl e \<Rightarrow> ?pure1 = Inl e
     | Inr f1 \<Rightarrow> fresh st \<le> f1 \<and> f1 < fresh st1 \<and> ?pure1 = Inr (arrays st1 f1))"
  proof (cases "validRange sv rv")
    case True
    with s1 have "removeOlderVersions_st sv f0 rv st0 = (r1, st1)" by simp
    from removeOlderVersions_st_spec [OF this] True a0 f0 p0 show ?thesis
      by (cases r1) (auto simp: preserves_def)
  next
    case False
    with s1 a0 f0 show ?thesis by (auto simp: preserves_refl)
  qed
  then have p01: "preserves st st1" using p0 preserves_trans by blast
  show ?thesis
  proof (cases r1)
    case (Inl e)
    with run s0 s1 have "res = Inl e" "st' = st1"
      by (simp_all add: applyTagFilterRules_st_def)
    moreover from Inl p1 have "?pure1 = Inl e" by simp
    then have "applyTagFilterRules sv rx (arrays st tags) rv sat latest nf = Inl e"
      by (simp add: applyTagFilterRules_def)
    ultimately show ?thesis using p01 by simp
  next
    case (Inr f1)
    with p1 have f1: "fresh st \<le> f1" "f1 < fresh st1" and e1: "?pure1 = Inr (arrays st1 f1)"
      by simp_all
    obtain f2 st2 where s2: "removeExactVersions_st f1 sat st1 = (f2, st2)"
      by (cases "removeExactVersions_st f1 sat st1")
    from removeExactVersions_st_spec [OF s2] have p2: "preserves st1 st2"
      and f2: "f2 < fresh st2" and a2: "arrays st2 f2 = removeExactVersions (arrays st1 f1) sat"
      by simp_all
    obtain f3 st3 where s3: "removeExactVersions_st f2 (Some latest) st2 = (f3, st3)"
      by (cases "removeExactVersions_st f2 (Some latest) st2")
    from removeExactVersions_st_spec [OF s3] have p3: "preserves st2 st3"
      and f3: "f3 < fresh st3"
      and a3: "arrays st3 f3 = removeExactVersions (arrays st2 f2) (Some latest)"
      by simp_all
    let ?x3 = "removeExactVersions (removeExactVersions (arrays st1 f1) sat) (Some latest)"
    have a3': "arrays st3 f3 = ?x3" using a3 a2 by simp
    let ?step4 = "if nf then removeOlderVersions_st sv f3 latest st3 else (Inr f3, st3)"
    let ?pure4 = "if nf then removeOlderVersions sv ?x3 latest else Inr ?x3"
    obtain r4 st4 where s4: "?step4 = (r4, st4)" by (cases ?step4)
    have p4: "preserves st3 st4 \<and>
      (case r4 of Inl e \<Rightarrow> ?pure4 = Inl e
       | Inr f4 \<Rightarrow> f4 < fresh st4 \<and> ?pure4 = Inr (arrays st4 f4))"
    proof (cases nf)
      case True
      with s4 have "removeOlderVersions_st sv f3 latest st3 = (r4, st4)" by simp
      from removeOlderVersions_st_spec [OF this] True a3' show ?thesis
        by (cases r4) auto
    next
      case False
      with s4 a3' f3 show ?thesis by (auto simp: preserves_refl)
    qed
    have p04: "preserves st st4"
      using p01 p2 p3 p4 preserves_trans by blast
    show ?thesis
    proof (cases r4)
      case (Inl e)
      with run s0 s1 \<open>r1 = Inr f1\<close> s2 s3 s4 have "res = Inl e" "st' = st4"
        by (simp_all add: applyTagFilterRules_st_def)
      moreover from Inl p4 have "?pure4 = Inl e" by simp
      with e1 have "applyTagFilterRules sv rx (arrays st tags) rv sat latest nf = Inl e"
        by (simp add: applyTagFilterRules_def Let_def)
      ultimately show ?thesis using p04 by simp
    next
      case (Inr f4)
      with p4 have f4: "f4 < fresh st4" and e4: "?pure4 = Inr (arrays st4 f4)" by simp_all
      obtain f5 st5 where s5: "removeAmbiguousTagNames_st rx f4 st4 = (f5, st5)"
        by (cases "removeAmbiguousTagNames_st rx f4 st4")
      from removeAmbiguousTagNames_st_spec [OF s5 f4] have p5: "preserves st4 st5"
        and f5: "f5 < fresh st5"
        and a5: "arrays st5 f5 = removeAmbiguousTagNames rx (arrays st4 f4)"
        by simp_all
      obtain f6 st6 where s6: "reduceTagsByUniqueNames_st f5 st5 = (f6, st6)"
        by (cases "reduceTagsByUniqueNames_st f5 st5")
      from reduceTagsByUniqueNames_st_spec [OF s6 f5] have p6: "preserves st5 st6"
        and f6: "f6 < fresh st6"
        and a6: "arrays st6 f6 = reduceTagsByUniqueNames (arrays st5 f5)"
        by simp_all
      obtain f7 st7 where s7: "removeTagsWithName_st f6 ''latest'' st6 = (f7, st7)"
        by (cases "removeTagsWithName_st f6 ''latest'' st6")
      from removeTagsWithName_st_spec [OF s7] have p7: "preserves st6 st7"
        and f7: "fresh st6 \<le> f7" "f7 < fresh st7"
        and a7: "arrays st7 f7 = removeTagsWithName (arrays st6 f6) ''latest''"
        by simp_all
      have p07: "preserves st st7"
        using p04 p5 p6 p7 preserves_trans by blast
      have p06: "preserves st st6"
        using p04 p5 p6 preserves_trans by blast
      then have f7': "fresh st \<le> f7" using f7(1) by (simp add: preserves_def)
      let ?x7 = "removeTagsWithName (reduceTagsByUniqueNames
                   (removeAmbiguousTagNames rx (arrays st4 f4))) ''latest''"
      have a7': "arrays st7 f7 = ?x7" using a7 a6 a5 by simp
      from run s0 s1 \<open>r1 = Inr f1\<close> s2 s3 s4 \<open>r4 = Inr f4\<close> s5 s6 s7
      have s8: "sort_st (sortTagsByRecentVersion sv) f7 st7 = (res, st')"
        by (simp add: applyTagFilterRules_st_def)
      from sort_st_spec [OF s8] have fr: "fresh st' = fresh st7"
        and oth: "\<forall>b. b \<noteq> f7 \<longrightarrow> arrays st' b = arrays st7 b"
        and r8: "(case res of
           Inl e \<Rightarrow> array_sort (sortTagsByRecentVersion sv) (arrays st7 f7) = Inl e
         | Inr r \<Rightarrow> r = f7 \<and>
             array_sort (sortTagsByRecentVersion sv) (arrays st7 f7) = Inr (arrays st' f7))"
        by simp_all
      have pure: "applyTagFilterRules sv rx (arrays st tags) rv sat latest nf
          = array_sort (sortTagsByRecentVersion sv) ?x7"
        using e1 e4 by (simp add: applyTagFilterRules_def Let_def)
      have "preserves st st'"
        unfolding preserves_def
      proof (intro conjI allI impI)
        show "fresh st \<le> fresh st'" using fr p07 by (simp add: preserves_def)
      next
        fix b assume b: "b < fresh st"
        with f7' have "b \<noteq> f7" by simp
        with oth have "arrays st' b = arrays st7 b" by blast
        with preserves_read [OF p07 b] show "arrays st' b = arrays st b" by simp
      qed
      moreover have "case res of
           Inl e \<Rightarrow> applyTagFilterRules sv rx (arrays st tags) rv sat latest nf = Inl e
         | Inr r \<Rightarrow> fresh st \<le> r \<and>
             applyTagFilterRules sv rx (arrays st tags) rv sat latest nf = Inr (arrays st' r)"
        using r8 f7' by (cases res) (simp_all add: pure a7')
      ultimately show ?thesis by blast
    qed
  qed
qed

text \<open>
  Claim C9. \<^verbatim>\<open>applyTagFilterRules\<close> never changes the array it is given: whatever the
  store and the arguments, after the call (returned or raised) the caller's array, and
  every other array that existed before, holds the same elements in the same order. The
  array returned is a different object, and it holds the sequence the list-valued function
  computes.
\<close>

theorem applyTagFilterRules_st_frame:
  assumes "tags < fresh st"
  shows "arrays (snd (applyTagFilterRules_st sv rx tags rv sat latest nf st)) tags
           = arrays st tags \<and>
    preserves st (snd (applyTagFilterRules_st sv rx tags rv sat latest nf st)) \<and>
    (case fst (applyTagFilterRules_st sv rx tags rv sat latest nf st) of
       Inl e \<Rightarrow> applyTagFilterRules sv rx (arrays st tags) rv sat latest nf = Inl e
     | Inr r \<Rightarrow> r \<noteq> tags \<and>
         applyTagFilterRules sv rx (arrays st tags) rv sat latest nf
           = Inr (arrays (snd (applyTagFilterRules_st sv rx tags rv sat latest nf st)) r))"
proof -
  obtain res st' where run: "applyTagFilterRules_st sv rx tags rv sat latest nf st = (res, st')"
    by (cases "applyTagFilterRules_st sv rx tags rv sat latest nf st")
  from applyTagFilterRules_st_spec [OF run assms]
  have p: "preserves st st'"
    and r: "case res of
       Inl e \<Rightarrow> applyTagFilterRules sv rx (arrays st tags) rv sat latest nf = Inl e
     | Inr r \<Rightarrow> fresh st \<le> r \<and>
         applyTagFilterRules sv rx (arrays st tags) rv sat latest nf = Inr (arrays st' r)"
    by simp_all
  have "arrays st' tags = arrays st tags" by (rule preserves_read [OF p assms])
  moreover have "case res of
       Inl e \<Rightarrow> applyTagFilterRules sv rx (arrays st tags) rv sat latest nf = Inl e
     | Inr r \<Rightarrow> r \<noteq> tags \<and>
         applyTagFilterRules sv rx (arrays st tags) rv sat latest nf = Inr (arrays st' r)"
    using r assms by (cases res) auto
  ultimately show ?thesis unfolding run fst_conv snd_conv using p by blast
qed

theorem applyTagFilterRules_st_frame_witness:
  "(0::nat) < fresh \<lparr>arrays = (\<lambda>a. [])(0 :=
        [\<lparr>name = ''beta'', version = ''1.0.0-beta.1''\<rparr>,
         \<lparr>name = ''next'', version = ''1.0.0-beta.1''\<rparr>,
         \<lparr>name = ''alpha'', version = ''2.0.0-alpha.2''\<rparr>]), fresh = 1\<rparr> \<and>
   arrays (snd (applyTagFilterRules_st semver_model formatTagNameRegex_exec 0 ''^0.9.0''
       (Some ''0.9.0'') ''0.9.0'' False
       \<lparr>arrays = (\<lambda>a. [])(0 :=
          [\<lparr>name = ''beta'', version = ''1.0.0-beta.1''\<rparr>,
           \<lparr>name = ''next'', version = ''1.0.0-beta.1''\<rparr>,
           \<lparr>name = ''alpha'', version = ''2.0.0-alpha.2''\<rparr>]), fresh = 1\<rparr>)) 0
     = [\<lparr>name = ''beta'', version = ''1.0.0-beta.1''\<rparr>,
        \<lparr>name = ''next'', version = ''1.0.0-beta.1''\<rparr>,
        \<lparr>name = ''alpha'', version = ''2.0.0-alpha.2''\<rparr>] \<and>
   (\<exists>r. fst (applyTagFilterRules_st semver_model formatTagNameRegex_exec 0 ''^0.9.0''
       (Some ''0.9.0'') ''0.9.0'' False
       \<lparr>arrays = (\<lambda>a. [])(0 :=
          [\<lparr>name = ''beta'', version = ''1.0.0-beta.1''\<rparr>,
           \<lparr>name = ''next'', version = ''1.0.0-beta.1''\<rparr>,
           \<lparr>name = ''alpha'', version = ''2.0.0-alpha.2''\<rparr>]), fresh = 1\<rparr>) = Inr r \<and>
      r \<noteq> 0 \<and>
      arrays (snd (applyTagFilterRules_st semver_model formatTagNameRegex_exec 0 ''^0.9.0''
       (Some ''0.9.0'') ''0.9.0'' False
       \<lparr>arrays = (\<lambda>a. [])(0 :=
          [\<lparr>name = ''beta'', version = ''1.0.0-beta.1''\<rparr>,
           \<lparr>name = ''next'', version = ''1.0.0-beta.1''\<rparr>,
           \<lparr>name = ''alpha'', version = ''2.0.0-alpha.2''\<rparr>]), fresh = 1\<rparr>)) r
      = [\<lparr>name = ''alpha'', version = ''2.0.0-alpha.2''\<rparr>,
         \<lparr>name = ''next'', version = ''1.0.0-beta.1''\<rparr>,
         \<lparr>name = ''beta'', version = ''1.0.0-beta.1''\<rparr>])"
proof -
  let ?xs = "[\<lparr>name = ''beta'', version = ''1.0.0-beta.1''\<rparr>,
              \<lparr>name = ''next'', version = ''1.0.0-beta.1''\<rparr>,
              \<lparr>name = ''alpha'', version = ''2.0.0-alpha.2''\<rparr>]"
  let ?st = "\<lparr>arrays = (\<lambda>a. [])(0 := ?xs), fresh = 1\<rparr>"
  let ?run = "applyTagFilterRules_st semver_model formatTagNameRegex_exec 0 ''^0.9.0''
       (Some ''0.9.0'') ''0.9.0'' False ?st"
  have alloc: "0 < fresh ?st" by simp
  have rd: "arrays ?st 0 = ?xs" by simp
  note t = applyTagFilterRules_st_frame [OF alloc, of semver_model formatTagNameRegex_exec
      "''^0.9.0''" "Some ''0.9.0''" "''0.9.0''" False]
  from t have keep: "arrays (snd ?run) 0 = ?xs" unfolding rd by blast
  from t have c: "case fst ?run of
       Inl e \<Rightarrow> applyTagFilterRules semver_model formatTagNameRegex_exec ?xs ''^0.9.0''
                  (Some ''0.9.0'') ''0.9.0'' False = Inl e
     | Inr r \<Rightarrow> r \<noteq> 0 \<and>
         applyTagFilterRules semver_model formatTagNameRegex_exec ?xs ''^0.9.0''
                  (Some ''0.9.0'') ''0.9.0'' False = Inr (arrays (snd ?run) r)"
    unfolding rd by blast
  have "\<exists>r. fst ?run = Inr r \<and> r \<noteq> 0 \<and>
      arrays (snd ?run) r = [\<lparr>name = ''alpha'', version = ''2.0.0-alpha.2''\<rparr>,
         \<lparr>name = ''next'', version = ''1.0.0-beta.1''\<rparr>,
         \<lparr>name = ''beta'', version = ''1.0.0-beta.1''\<rparr>]"
  proof (cases "fst ?run")
    case (Inl e)
    with c show ?thesis unfolding example_run by simp
  next
    case (Inr r)
    with c show ?thesis unfolding example_run by simp
  qed
  with alloc keep show ?thesis by blast
qed

section \<open>Deduplication keeps the first occurrence\<close>











end
